theory Spec2Isabelle
  imports Complex_Main "HOL-Library.Word"
begin

section \<open>The S3 backend of the CT log (internal/ctlog/s3.go)\<close>

subsection \<open>Values\<close>

text \<open>
  Go's \<open>[]byte\<close> is a list of 8-bit words, Go's \<open>string\<close> a list of 8-bit characters.
  A Go \<open>*string\<close> or \<open>*bool\<close> is an \<open>option\<close> (\<open>None\<close> is the nil pointer), and a Go
  \<open>error\<close> value is an \<open>error option\<close> (\<open>None\<close> is the nil error).
\<close>

type_synonym bytes = "8 word list"

text \<open>
  Errors. \<open>External\<close> is an error produced outside this file (the S3 client, the gzip
  library, the network). The helper \<open>fmtErrorf\<close> is declared elsewhere in package ctlog;
  its result is kept symbolic as the format string, the string arguments and the error
  wrapped by \<open>%w\<close>.
\<close>

datatype error = External string | Errorf string "string list" "error option"

datatype panic = NilPointerDereference

text \<open>
  Modelled from the spec: the struct \<open>UploadOptions\<close>, declared elsewhere in package
  ctlog, with the three fields that \<open>Upload\<close> reads. \<open>Upload\<close> receives a pointer to it,
  hence a \<open>UploadOptions option\<close>.
\<close>

record UploadOptions =
  ContentType :: string
  Compress :: bool
  Immutable :: bool

text \<open>
  The part of \<open>s3.Options\<close> the file touches: the base endpoint and the per-request API
  options, of which only \<open>awshttp.AddHeaderValue\<close> occurs.
\<close>

datatype api_option = AddHeaderValue string string

record s3_Options =
  BaseEndpoint :: "string option"
  APIOptions :: "api_option list"

text \<open>
  The fields of \<open>S3Backend\<close> that are plain data. The client is represented by its
  options; the Prometheus collectors are mutable and live in the \<open>world\<close> below.
\<close>

record S3Backend =
  client :: s3_Options
  bucket :: string
  keyPrefix :: string

record PutObjectInput =
  put_Bucket :: string
  put_Key :: string
  put_Body :: bytes
  put_ContentLength :: int
  put_ContentEncoding :: "string option"
  put_ContentType :: "string option"
  put_CacheControl :: "string option"

record GetObjectInput =
  get_Bucket :: string
  get_Key :: string

text \<open>
  A response body is a stream: the bytes that can be read from it, and the error the
  read ends with, if any.
\<close>

record stream =
  avail :: bytes
  failure :: "error option"

record GetObjectOutput =
  out_ContentEncoding :: "string option"
  out_Body :: stream

record ListObjectsV2Input =
  list_Bucket :: string
  list_Prefix :: string

record ListObjectsV2Output =
  Contents :: "string option list"
  IsTruncated :: "bool option"

record CopyObjectInput =
  copy_Bucket :: string
  CopySource :: string
  copy_Key :: string

record DeleteObjectInput =
  del_Bucket :: string
  del_Key :: string

subsection \<open>List\<close>

text \<open>\<open>strings.HasPrefix\<close> and \<open>strings.TrimPrefix\<close>.\<close>

definition HasPrefix :: "string \<Rightarrow> string \<Rightarrow> bool" where
  "HasPrefix s p = (take (length p) s = p)"

definition TrimPrefix :: "string \<Rightarrow> string \<Rightarrow> string" where
  "TrimPrefix s p = (if HasPrefix s p then drop (length p) s else s)"

text \<open>
  The loop of \<open>List\<close> over \<open>out.Contents\<close>; each entry is the \<open>Key\<close> pointer of the
  object. \<open>keys\<close> is the slice built so far.
\<close>

fun List_loop :: "S3Backend \<Rightarrow> string \<Rightarrow> string option list \<Rightarrow> string list \<Rightarrow> error + string list" where
  "List_loop s prefix [] keys = Inr keys"
| "List_loop s prefix (object # rest) keys =
     (case object of
        None \<Rightarrow> Inl (Errorf ''failed to list %q from S3: nil key'' [prefix] None)
      | Some key \<Rightarrow>
          if \<not> HasPrefix key (keyPrefix s @ prefix)
          then Inl (Errorf ''failed to list %q from S3: strange response %q'' [prefix, key] None)
          else List_loop s prefix rest (keys @ [TrimPrefix key (keyPrefix s)]))"

definition List_input :: "S3Backend \<Rightarrow> string \<Rightarrow> ListObjectsV2Input" where
  "List_input s prefix = \<lparr>list_Bucket = bucket s, list_Prefix = keyPrefix s @ prefix\<rparr>"

text \<open>\<open>ListObjectsV2\<close> is the call of the S3 client, a parameter here.\<close>

definition List :: "S3Backend \<Rightarrow> (ListObjectsV2Input \<Rightarrow> error + ListObjectsV2Output) \<Rightarrow> string
    \<Rightarrow> error + string list" where
  "List s ListObjectsV2 prefix =
     (case ListObjectsV2 (List_input s prefix) of
        Inl err \<Rightarrow> Inl (Errorf ''failed to list %q from S3: %w'' [prefix] (Some err))
      | Inr out \<Rightarrow>
          (case List_loop s prefix (Contents out) [] of
             Inl e \<Rightarrow> Inl e
           | Inr keys \<Rightarrow>
               if IsTruncated out \<noteq> None \<and> the (IsTruncated out)
               then Inl (Errorf ''failed to list %q from S3: response truncated'' [prefix] None)
               else Inr keys))"

subsection \<open>Fetch, Copy, Delete\<close>

text \<open>
  The gzip library (\<open>compress/gzip\<close>) is a parameter. Reading a gzip stream has three
  outcomes: \<open>gzip.NewReader\<close> fails, \<open>io.ReadAll\<close> of the reader fails, or the
  decompressed bytes.
\<close>

datatype gunzip_result = NewReaderError error | ReadError error | Gunzipped bytes

definition ReadAll :: "stream \<Rightarrow> error + bytes" where
  "ReadAll b = (case failure b of None \<Rightarrow> Inr (avail b) | Some e \<Rightarrow> Inl e)"

definition Fetch_input :: "S3Backend \<Rightarrow> string \<Rightarrow> GetObjectInput" where
  "Fetch_input s key = \<lparr>get_Bucket = bucket s, get_Key = keyPrefix s @ key\<rparr>"

definition Fetch :: "(stream \<Rightarrow> gunzip_result) \<Rightarrow> S3Backend
    \<Rightarrow> (GetObjectInput \<Rightarrow> error + GetObjectOutput) \<Rightarrow> string \<Rightarrow> error + bytes" where
  "Fetch gunzip s GetObject key =
     (case GetObject (Fetch_input s key) of
        Inl err \<Rightarrow> Inl (Errorf ''failed to fetch %q from S3: %w'' [key] (Some err))
      | Inr out \<Rightarrow>
          if out_ContentEncoding out \<noteq> None \<and> the (out_ContentEncoding out) = ''gzip''
          then (case gunzip (out_Body out) of
                  NewReaderError err \<Rightarrow>
                    Inl (Errorf ''failed to decompress %q from S3: %w'' [key] (Some err))
                | ReadError err \<Rightarrow> Inl (Errorf ''failed to read %q from S3: %w'' [key] (Some err))
                | Gunzipped d \<Rightarrow> Inr d)
          else (case ReadAll (out_Body out) of
                  Inl err \<Rightarrow> Inl (Errorf ''failed to read %q from S3: %w'' [key] (Some err))
                | Inr d \<Rightarrow> Inr d))"

definition Copy_input :: "S3Backend \<Rightarrow> string \<Rightarrow> string \<Rightarrow> CopyObjectInput" where
  "Copy_input s from to =
     \<lparr>copy_Bucket = bucket s,
      CopySource = bucket s @ ''/'' @ keyPrefix s @ from,
      copy_Key = keyPrefix s @ to\<rparr>"

definition Copy :: "S3Backend \<Rightarrow> (CopyObjectInput \<Rightarrow> error option) \<Rightarrow> string \<Rightarrow> string
    \<Rightarrow> error option" where
  "Copy s CopyObject from to =
     (case CopyObject (Copy_input s from to) of
        Some err \<Rightarrow> Some (Errorf ''failed to copy %q to %q on S3: %w'' [from, to] (Some err))
      | None \<Rightarrow> None)"

definition Delete_input :: "S3Backend \<Rightarrow> string \<Rightarrow> DeleteObjectInput" where
  "Delete_input s key = \<lparr>del_Bucket = bucket s, del_Key = keyPrefix s @ key\<rparr>"

definition Delete :: "S3Backend \<Rightarrow> (DeleteObjectInput \<Rightarrow> error option) \<Rightarrow> string
    \<Rightarrow> error option" where
  "Delete s DeleteObject key =
     (case DeleteObject (Delete_input s key) of
        Some err \<Rightarrow> Some (Errorf ''failed to delete %q from S3: %w'' [key] (Some err))
      | None \<Rightarrow> None)"

subsection \<open>Upload: the sequential prefix and the put closure\<close>

text \<open>
  The value of \<open>float64(a) / float64(b)\<close> for two lengths: IEEE 754 division gives NaN
  for 0/0 and +Inf for a positive numerator over zero. A finite quotient is kept as the
  exact rational (the rounding to the nearest float64 is not modelled).
\<close>

datatype f64 = Finite rat | PosInf | NaN

definition float64_div :: "nat \<Rightarrow> nat \<Rightarrow> f64" where
  "float64_div a b =
     (if b = 0 then (if a = 0 then NaN else PosInf) else Finite (of_nat a / of_nat b))"

text \<open>The local variables of \<open>Upload\<close> that the put closure captures.\<close>

record upload_vars =
  v_contentType :: string
  v_contentEncoding :: "string option"
  v_data :: bytes
  v_cacheControl :: "string option"

text \<open>
  Lines 118 to 139 of \<open>Upload\<close>. \<open>gz\<close> is the gzip writer (write, then close) into a
  buffer: the compressed bytes, or the error of either call. The result is the error
  returned early, or the variables and the ratio observed by \<open>compressRatio\<close>, if any.
\<close>

definition Upload_prepare :: "(bytes \<Rightarrow> error + bytes) \<Rightarrow> string \<Rightarrow> bytes \<Rightarrow> UploadOptions option
    \<Rightarrow> error + (upload_vars \<times> f64 option)" where
  "Upload_prepare gz key dat opts =
     (let contentType =
            (if opts \<noteq> None \<and> ContentType (the opts) \<noteq> ''''
             then ContentType (the opts) else ''application/octet-stream'');
          cacheControl =
            (if opts \<noteq> None \<and> Immutable (the opts)
             then Some ''public, max-age=604800, immutable'' else None)
      in if opts \<noteq> None \<and> Compress (the opts)
         then (case gz dat of
                 Inl err \<Rightarrow> Inl (Errorf ''failed to compress %q: %w'' [key] (Some err))
               | Inr b \<Rightarrow>
                   Inr (\<lparr>v_contentType = contentType, v_contentEncoding = Some ''gzip'',
                         v_data = b, v_cacheControl = cacheControl\<rparr>,
                        Some (float64_div (length b) (length dat))))
         else Inr (\<lparr>v_contentType = contentType, v_contentEncoding = None,
                    v_data = dat, v_cacheControl = cacheControl\<rparr>, None))"

definition putObject_input :: "S3Backend \<Rightarrow> string \<Rightarrow> upload_vars \<Rightarrow> PutObjectInput" where
  "putObject_input s key v =
     \<lparr>put_Bucket = bucket s,
      put_Key = keyPrefix s @ key,
      put_Body = v_data v,
      put_ContentLength = int (length (v_data v)),
      put_ContentEncoding = v_contentEncoding v,
      put_ContentType = Some (v_contentType v),
      put_CacheControl = v_cacheControl v\<rparr>"

text \<open>
  The per-request function passed to \<open>PutObject\<close>. It reads \<open>opts.Immutable\<close> with no
  nil check, so a nil \<open>opts\<close> is a nil pointer dereference.
\<close>

definition putObject_options :: "UploadOptions option \<Rightarrow> s3_Options \<Rightarrow> panic + s3_Options" where
  "putObject_options opts options =
     (case opts of
        None \<Rightarrow> Inl NilPointerDereference
      | Some opt \<Rightarrow>
          if Immutable opt \<and> BaseEndpoint options \<noteq> None \<and>
             the (BaseEndpoint options) = ''https://fly.storage.tigris.dev''
          then Inr (options\<lparr>APIOptions := APIOptions options @ [AddHeaderValue ''If-Match'' '''']\<rparr>)
          else Inr options)"

text \<open>
  A PUT as it leaves the client: the input and the client's options after the
  per-request function has run on a copy of them. \<open>putObject\<close> is the closure of
  \<open>Upload\<close>; the client calls the per-request function before it sends anything.
\<close>

record put_request =
  req_input :: PutObjectInput
  req_options :: s3_Options

definition putObject :: "S3Backend \<Rightarrow> string \<Rightarrow> upload_vars \<Rightarrow> UploadOptions option
    \<Rightarrow> panic + put_request" where
  "putObject s key v opts =
     (case putObject_options opts (client s) of
        Inl p \<Rightarrow> Inl p
      | Inr options \<Rightarrow> Inr \<lparr>req_input = putObject_input s key v, req_options = options\<rparr>)"

subsection \<open>The world outside one call\<close>

text \<open>
  The object store as \<open>Upload\<close> and \<open>Fetch\<close> see it: a map from bucket and key to the
  object last written. This is the idealised store of the round-trip property: a PUT
  that is applied stores the body and the headers of its input, and a GET returns them.
\<close>

record s3_object =
  obj_Body :: bytes
  obj_ContentEncoding :: "string option"
  obj_ContentType :: "string option"
  obj_CacheControl :: "string option"

type_synonym s3_store = "string \<times> string \<Rightarrow> s3_object option"

definition store_PutObject :: "PutObjectInput \<Rightarrow> s3_store \<Rightarrow> s3_store" where
  "store_PutObject i st =
     st((put_Bucket i, put_Key i) \<mapsto>
        \<lparr>obj_Body = put_Body i, obj_ContentEncoding = put_ContentEncoding i,
         obj_ContentType = put_ContentType i, obj_CacheControl = put_CacheControl i\<rparr>)"

definition store_GetObject :: "s3_store \<Rightarrow> GetObjectInput \<Rightarrow> error + GetObjectOutput" where
  "store_GetObject st i =
     (case st (get_Bucket i, get_Key i) of
        None \<Rightarrow> Inl (External ''NoSuchKey'')
      | Some ob \<Rightarrow>
          Inr \<lparr>out_ContentEncoding = obj_ContentEncoding ob,
               out_Body = \<lparr>avail = obj_Body ob, failure = None\<rparr>\<rparr>)"

text \<open>
  The mutable state shared by all calls: the four collectors of the backend that
  \<open>Upload\<close> updates (a counter is its value, a summary the list of its observations;
  \<open>uploadSize\<close> observes \<open>float64(len(data))\<close>, kept as the length), the store, and the
  PUT requests that have left the client, in order.
\<close>

record world =
  hedgeRequests :: nat
  hedgeWins :: nat
  uploadSize :: "nat list"
  compressRatio :: "f64 list"
  store :: s3_store
  wire :: "put_request list"

subsection \<open>Upload: the two goroutines\<close>

text \<open>
  From line 140 on, \<open>Upload\<close> is two goroutines: the caller's, which issues the primary
  PUT, and the hedge. Each is a program counter; a counter carries the values that are
  live at that point. The channel \<open>hedgeErr\<close> has capacity one: \<open>None\<close> is the empty
  channel, \<open>Some err\<close> holds the error value \<open>err\<close>. \<open>cancelled\<close> is the state of the
  context made by \<open>context.WithCancelCause\<close>.
\<close>

datatype attempt = Primary | Hedge

datatype main_pc =
    MStart                    \<comment> \<open>entry of \<open>Upload\<close>\<close>
  | MCall                     \<comment> \<open>line 177, before \<open>putObject()\<close>\<close>
  | MPut put_request          \<comment> \<open>the primary PUT is in flight\<close>
  | MSelect "error option"    \<comment> \<open>line 178, \<open>err\<close> is the primary's result\<close>
  | MInc "error option"       \<comment> \<open>line 180, \<open>err\<close> was received from \<open>hedgeErr\<close>\<close>
  | MCancel "error option"    \<comment> \<open>line 182\<close>
  | MObserve "error option"   \<comment> \<open>line 188\<close>
  | MDone "error option"      \<comment> \<open>\<open>Upload\<close> has returned this error value\<close>
  | MPanic panic              \<comment> \<open>\<open>Upload\<close> has panicked\<close>

datatype hedge_pc =
    HNotStarted               \<comment> \<open>before the \<open>go\<close> statement\<close>
  | HWait                     \<comment> \<open>line 167, in the select\<close>
  | HInc                      \<comment> \<open>line 170, the timer case was taken\<close>
  | HCall                     \<comment> \<open>line 171, before \<open>putObject()\<close>\<close>
  | HPut put_request          \<comment> \<open>the hedge PUT is in flight\<close>
  | HSend "error option"      \<comment> \<open>line 173\<close>
  | HCancel                   \<comment> \<open>line 174\<close>
  | HExit                     \<comment> \<open>the goroutine ended after the timer case\<close>
  | HSkipped                  \<comment> \<open>the goroutine ended after the \<open>ctx.Done()\<close> case\<close>
  | HPanic panic

text \<open>
  \<open>primaryRes\<close>, \<open>hedgeRes\<close> and \<open>adopted\<close> are history variables: the error value each
  PUT returned, once it has returned, and which of the two results the select at line
  178 kept in \<open>err\<close>.
\<close>

record upload_state =
  mpc :: main_pc
  hpc :: hedge_pc
  vars :: upload_vars
  hedgeErr :: "error option option"
  cancelled :: bool
  primaryRes :: "error option option"
  hedgeRes :: "error option option"
  adopted :: "attempt option"

text \<open>The arguments of one call, with the gzip writer it uses.\<close>

record upload_call =
  u_gzip :: "bytes \<Rightarrow> error + bytes"
  u_backend :: S3Backend
  u_key :: string
  u_data :: bytes
  u_opts :: "UploadOptions option"

definition init_state :: "upload_call \<Rightarrow> upload_state" where
  "init_state c =
     \<lparr>mpc = MStart, hpc = HNotStarted,
      vars = \<lparr>v_contentType = ''application/octet-stream'', v_contentEncoding = None,
              v_data = u_data c, v_cacheControl = None\<rparr>,
      hedgeErr = None, cancelled = False,
      primaryRes = None, hedgeRes = None, adopted = None\<rparr>"

text \<open>
  How a PUT ends, as the client sees it: success, or an error. After an error the store
  may or may not have applied the write (the flag); after a success it has.
\<close>

datatype put_outcome = PutOK | PutFailed error bool

fun put_err :: "put_outcome \<Rightarrow> error option" where
  "put_err PutOK = None"
| "put_err (PutFailed e applied) = Some e"

fun put_applied :: "put_outcome \<Rightarrow> bool" where
  "put_applied PutOK = True"
| "put_applied (PutFailed e applied) = applied"

definition complete_put :: "put_request \<Rightarrow> put_outcome \<Rightarrow> world \<Rightarrow> world" where
  "complete_put r oc w =
     (if put_applied oc then w\<lparr>store := store_PutObject (req_input r) (store w)\<rparr> else w)"

text \<open>
  What can happen next in a call: a goroutine runs its next statement, the select of the
  hedge takes one of its two cases, a PUT in flight returns, or the caller cancels the
  context it passed in. The scheduler and the network choose; nothing is assumed about
  time, so the timer case may be taken at any moment, and a PUT may return any outcome
  whether or not the context is cancelled.
\<close>

datatype event =
    MainStep
  | HedgeStep
  | TimerFires
  | CtxDone
  | PrimaryReturns put_outcome
  | HedgeReturns put_outcome
  | CallerCancels

definition main_step :: "upload_call \<Rightarrow> world \<times> upload_state \<Rightarrow> (world \<times> upload_state) option" where
  "main_step c = (\<lambda>(w, l).
     case mpc l of
       MStart \<Rightarrow>
         (case Upload_prepare (u_gzip c) (u_key c) (u_data c) (u_opts c) of
            Inl e \<Rightarrow> Some (w, l\<lparr>mpc := MDone (Some e)\<rparr>)
          | Inr (v, ratio) \<Rightarrow>
              Some (w\<lparr>compressRatio :=
                        compressRatio w @ (case ratio of None \<Rightarrow> [] | Some r \<Rightarrow> [r])\<rparr>,
                    l\<lparr>vars := v, hpc := HWait, mpc := MCall\<rparr>))
     | MCall \<Rightarrow>
         (case putObject (u_backend c) (u_key c) (vars l) (u_opts c) of
            Inl p \<Rightarrow> Some (w, l\<lparr>mpc := MPanic p\<rparr>)
          | Inr r \<Rightarrow> Some (w\<lparr>wire := wire w @ [r]\<rparr>, l\<lparr>mpc := MPut r\<rparr>))
     | MPut r \<Rightarrow> None
     | MSelect err \<Rightarrow>
         (case hedgeErr l of
            Some e \<Rightarrow> Some (w, l\<lparr>hedgeErr := None, mpc := MInc e, adopted := Some Hedge\<rparr>)
          | None \<Rightarrow> Some (w, l\<lparr>mpc := MCancel err, adopted := Some Primary\<rparr>))
     | MInc err \<Rightarrow> Some (w\<lparr>hedgeWins := hedgeWins w + 1\<rparr>, l\<lparr>mpc := MObserve err\<rparr>)
     | MCancel err \<Rightarrow> Some (w, l\<lparr>cancelled := True, mpc := MObserve err\<rparr>)
     | MObserve err \<Rightarrow>
         Some (w\<lparr>uploadSize := uploadSize w @ [length (v_data (vars l))]\<rparr>,
               l\<lparr>mpc := MDone
                    (case err of
                       None \<Rightarrow> None
                     | Some e \<Rightarrow>
                         Some (Errorf ''failed to upload %q to S3: %w'' [u_key c] (Some e)))\<rparr>)
     | MDone res \<Rightarrow> None
     | MPanic p \<Rightarrow> None)"

definition hedge_step :: "upload_call \<Rightarrow> world \<times> upload_state \<Rightarrow> (world \<times> upload_state) option" where
  "hedge_step c = (\<lambda>(w, l).
     case hpc l of
       HInc \<Rightarrow> Some (w\<lparr>hedgeRequests := hedgeRequests w + 1\<rparr>, l\<lparr>hpc := HCall\<rparr>)
     | HCall \<Rightarrow>
         (case putObject (u_backend c) (u_key c) (vars l) (u_opts c) of
            Inl p \<Rightarrow> Some (w, l\<lparr>hpc := HPanic p\<rparr>)
          | Inr r \<Rightarrow> Some (w\<lparr>wire := wire w @ [r]\<rparr>, l\<lparr>hpc := HPut r\<rparr>))
     | HSend err \<Rightarrow>
         (if hedgeErr l = None then Some (w, l\<lparr>hedgeErr := Some err, hpc := HCancel\<rparr>)
          else None)
     | HCancel \<Rightarrow> Some (w, l\<lparr>cancelled := True, hpc := HExit\<rparr>)
     | _ \<Rightarrow> None)"

definition step :: "upload_call \<Rightarrow> event \<Rightarrow> world \<times> upload_state \<Rightarrow> (world \<times> upload_state) option" where
  "step c ev = (\<lambda>(w, l).
     case ev of
       MainStep \<Rightarrow> main_step c (w, l)
     | HedgeStep \<Rightarrow> hedge_step c (w, l)
     | TimerFires \<Rightarrow> (if hpc l = HWait then Some (w, l\<lparr>hpc := HInc\<rparr>) else None)
     | CtxDone \<Rightarrow> (if hpc l = HWait \<and> cancelled l then Some (w, l\<lparr>hpc := HSkipped\<rparr>) else None)
     | PrimaryReturns oc \<Rightarrow>
         (case mpc l of
            MPut r \<Rightarrow>
              Some (complete_put r oc w,
                    l\<lparr>mpc := MSelect (put_err oc), primaryRes := Some (put_err oc)\<rparr>)
          | _ \<Rightarrow> None)
     | HedgeReturns oc \<Rightarrow>
         (case hpc l of
            HPut r \<Rightarrow>
              Some (complete_put r oc w,
                    l\<lparr>hpc := HSend (put_err oc), hedgeRes := Some (put_err oc)\<rparr>)
          | _ \<Rightarrow> None)
     | CallerCancels \<Rightarrow> Some (w, l\<lparr>cancelled := True\<rparr>))"

text \<open>A run of one call: the events in order; \<open>None\<close> when an event is not possible.\<close>

fun run :: "upload_call \<Rightarrow> event list \<Rightarrow> world \<times> upload_state \<Rightarrow> (world \<times> upload_state) option" where
  "run c [] st = Some st"
| "run c (ev # evs) st = (case step c ev st of None \<Rightarrow> None | Some st' \<Rightarrow> run c evs st')"

text \<open>
  An unrecovered panic ends the whole Go process. Here it only stops the goroutine that
  panicked; the runs of the program are among the runs of this model, so what holds of
  every state the model reaches holds of every state the program reaches.
\<close>

subsection \<open>Several calls on one backend\<close>

text \<open>
  The backend is used by concurrent callers. A system state is the shared world and the
  calls made so far, each with its own goroutines; a system event starts a call or lets
  one of the calls take an event.
\<close>

datatype sys_event = Call upload_call | Act nat event

definition sys_step :: "sys_event \<Rightarrow> world \<times> (upload_call \<times> upload_state) list
    \<Rightarrow> (world \<times> (upload_call \<times> upload_state) list) option" where
  "sys_step sev = (\<lambda>(w, calls).
     case sev of
       Call c \<Rightarrow> Some (w, calls @ [(c, init_state c)])
     | Act i ev \<Rightarrow>
         if i < length calls
         then (case step (fst (calls ! i)) ev (w, snd (calls ! i)) of
                 None \<Rightarrow> None
               | Some (w', l') \<Rightarrow> Some (w', calls[i := (fst (calls ! i), l')]))
         else None)"

fun sys_run :: "sys_event list \<Rightarrow> world \<times> (upload_call \<times> upload_state) list
    \<Rightarrow> (world \<times> (upload_call \<times> upload_state) list) option" where
  "sys_run [] st = Some st"
| "sys_run (sev # sevs) st =
     (case sys_step sev st of None \<Rightarrow> None | Some st' \<Rightarrow> sys_run sevs st')"

text \<open>
  The world as \<open>NewS3Backend\<close> leaves it: the collectors are new, nothing has been sent.
\<close>

definition new_world :: "s3_store \<Rightarrow> world" where
  "new_world st =
     \<lparr>hedgeRequests = 0, hedgeWins = 0, uploadSize = [], compressRatio = [],
      store = st, wire = []\<rparr>"

subsection \<open>Where a call stands\<close>

text \<open>
  \<open>hedge_launched\<close>: the hedge took the timer case and has run line 170.
  \<open>hedge_sent\<close>: the hedge has sent its result on \<open>hedgeErr\<close>.
  \<open>hedge_won\<close>: the caller received the hedge's result and has run line 180.
  \<open>primary_issued\<close> and \<open>hedge_issued\<close>: the PUT of that goroutine has left the client.
\<close>

definition hedge_launched :: "upload_state \<Rightarrow> bool" where
  "hedge_launched l =
     (case hpc l of
        HNotStarted \<Rightarrow> False | HWait \<Rightarrow> False | HInc \<Rightarrow> False | HSkipped \<Rightarrow> False
      | _ \<Rightarrow> True)"

definition hedge_sent :: "upload_state \<Rightarrow> bool" where
  "hedge_sent l = (hpc l = HCancel \<or> hpc l = HExit)"

definition hedge_won :: "upload_state \<Rightarrow> bool" where
  "hedge_won l =
     (adopted l = Some Hedge \<and> (case mpc l of MObserve e \<Rightarrow> True | MDone r \<Rightarrow> True | _ \<Rightarrow> False))"

definition primary_issued :: "upload_state \<Rightarrow> bool" where
  "primary_issued l =
     (case mpc l of
        MStart \<Rightarrow> False | MCall \<Rightarrow> False | MPanic p \<Rightarrow> False
      | MDone r \<Rightarrow> adopted l \<noteq> None
      | _ \<Rightarrow> True)"

definition hedge_issued :: "upload_state \<Rightarrow> bool" where
  "hedge_issued l =
     (case hpc l of
        HPut r \<Rightarrow> True | HSend e \<Rightarrow> True | HCancel \<Rightarrow> True | HExit \<Rightarrow> True
      | _ \<Rightarrow> False)"

text \<open>The error \<open>Upload\<close> returns for the error value \<open>err\<close> it ends with (lines 189 to 192).\<close>

definition Upload_result :: "upload_call \<Rightarrow> error option \<Rightarrow> error option" where
  "Upload_result c err =
     (case err of
        None \<Rightarrow> None
      | Some e \<Rightarrow> Some (Errorf ''failed to upload %q to S3: %w'' [u_key c] (Some e)))"

text \<open>
  The invariant of one call that relates the program counters, the channel and the
  history variables.
\<close>

definition main_inv :: "upload_call \<Rightarrow> upload_state \<Rightarrow> bool" where
  "main_inv c l =
     (case mpc l of
        MStart \<Rightarrow> hpc l = HNotStarted \<and> adopted l = None \<and> primaryRes l = None
      | MCall \<Rightarrow> adopted l = None \<and> primaryRes l = None
      | MPut r \<Rightarrow> adopted l = None \<and> primaryRes l = None
      | MSelect e \<Rightarrow> adopted l = None \<and> primaryRes l = Some e
      | MInc e \<Rightarrow> adopted l = Some Hedge \<and> hedgeRes l = Some e
      | MCancel e \<Rightarrow> adopted l = Some Primary \<and> primaryRes l = Some e
      | MObserve e \<Rightarrow>
          adopted l = Some Primary \<and> primaryRes l = Some e \<or>
          adopted l = Some Hedge \<and> hedgeRes l = Some e
      | MDone r \<Rightarrow>
          adopted l = None \<and> hpc l = HNotStarted \<and> primaryRes l = None \<and> r \<noteq> None \<or>
          adopted l = Some Primary \<and> (\<exists>e. primaryRes l = Some e \<and> r = Upload_result c e) \<or>
          adopted l = Some Hedge \<and> (\<exists>e. hedgeRes l = Some e \<and> r = Upload_result c e)
      | MPanic p \<Rightarrow> adopted l = None \<and> primaryRes l = None)"

definition hedge_inv :: "upload_state \<Rightarrow> bool" where
  "hedge_inv l =
     ((if hedge_sent l
       then \<exists>e. hedgeRes l = Some e \<and>
              (hedgeErr l = Some e \<and> adopted l \<noteq> Some Hedge \<or>
               hedgeErr l = None \<and> adopted l = Some Hedge)
       else hedgeErr l = None \<and> adopted l \<noteq> Some Hedge) \<and>
      (case hpc l of
         HSend e \<Rightarrow> hedgeRes l = Some e
       | HCancel \<Rightarrow> True
       | HExit \<Rightarrow> True
       | _ \<Rightarrow> hedgeRes l = None))"

definition upload_inv :: "upload_call \<Rightarrow> upload_state \<Rightarrow> bool" where
  "upload_inv c l = (main_inv c l \<and> hedge_inv l)"

subsection \<open>Sample values\<close>

text \<open>Concrete values at which the properties below are evaluated.\<close>

definition sample_backend :: S3Backend where
  "sample_backend =
     \<lparr>client = \<lparr>BaseEndpoint = Some ''https://fly.storage.tigris.dev'', APIOptions = []\<rparr>,
      bucket = ''ct'', keyPrefix = ''log/''\<rparr>"

text \<open>
  A stand-in for the gzip library, to evaluate the properties at concrete inputs: it
  frames the data with the two magic bytes of a gzip stream and does not compress.
\<close>

definition sample_gzip :: "bytes \<Rightarrow> error + bytes" where
  "sample_gzip dat = Inr (0x1f # 0x8b # dat)"

definition sample_gunzip :: "stream \<Rightarrow> gunzip_result" where
  "sample_gunzip st =
     (case avail st of
        a # b # rest \<Rightarrow>
          if a = 0x1f \<and> b = 0x8b
          then (case failure st of None \<Rightarrow> Gunzipped rest | Some e \<Rightarrow> ReadError e)
          else NewReaderError (External ''gzip: invalid header'')
      | _ \<Rightarrow> NewReaderError (External ''unexpected EOF''))"

definition sample_call :: "bytes \<Rightarrow> UploadOptions option \<Rightarrow> upload_call" where
  "sample_call dat opts =
     \<lparr>u_gzip = sample_gzip, u_backend = sample_backend, u_key = ''abc'',
      u_data = dat, u_opts = opts\<rparr>"

text \<open>
  The invariant of the system: every call satisfies its invariant, and the two hedge
  counters count the calls whose hedge was launched and the calls the hedge won.
\<close>

definition sys_inv :: "world \<times> (upload_call \<times> upload_state) list \<Rightarrow> bool" where
  "sys_inv = (\<lambda>(w, calls).
     list_all (\<lambda>cl. upload_inv (fst cl) (snd cl)) calls \<and>
     hedgeRequests w = length (filter (\<lambda>cl. hedge_launched (snd cl)) calls) \<and>
     hedgeWins w = length (filter (\<lambda>cl. hedge_won (snd cl)) calls))"

text \<open>
  A run in which the hedge is launched, fails, and delivers its error before the primary
  PUT returns successfully.
\<close>

definition hedge_first_trace :: "event list" where
  "hedge_first_trace =
     [MainStep, MainStep, TimerFires, HedgeStep, HedgeStep,
      HedgeReturns (PutFailed (External ''PreconditionFailed'') False), HedgeStep,
      PrimaryReturns PutOK, MainStep, MainStep, MainStep]"

text \<open>A run in which the primary PUT returns successfully before the timer case is taken.\<close>

definition primary_first_trace :: "event list" where
  "primary_first_trace =
     [MainStep, MainStep, PrimaryReturns PutOK, MainStep, MainStep, MainStep, CtxDone]"

definition immutable_opts :: UploadOptions where
  "immutable_opts = \<lparr>ContentType = '''', Compress = False, Immutable = True\<rparr>"

definition immutable_call :: upload_call where
  "immutable_call = sample_call [1, 2, 3] (Some immutable_opts)"

text \<open>
  The PUT requests a call has sent so far: the request the closure builds, once for each
  goroutine whose PUT has left the client.
\<close>

definition sent_puts :: "upload_call \<Rightarrow> upload_state \<Rightarrow> put_request list" where
  "sent_puts c l =
     (case putObject (u_backend c) (u_key c) (vars l) (u_opts c) of
        Inl p \<Rightarrow> []
      | Inr r \<Rightarrow> replicate (of_bool (primary_issued l) + of_bool (hedge_issued l)) r)"

text \<open>
  The invariant on the variables of a call: after the sequential prefix they hold what
  \<open>Upload_prepare\<close> computed, and a PUT in flight is the request the closure builds.
\<close>

definition vars_inv :: "upload_call \<Rightarrow> upload_state \<Rightarrow> bool" where
  "vars_inv c l =
     ((case Upload_prepare (u_gzip c) (u_key c) (u_data c) (u_opts c) of
         Inl e \<Rightarrow> mpc l = MStart \<or> mpc l = MDone (Some e) \<and> adopted l = None
       | Inr (v, ratio) \<Rightarrow> mpc l = MStart \<or> vars l = v \<and> (\<forall>r. mpc l = MDone r \<longrightarrow> adopted l \<noteq> None)) \<and>
      (\<forall>r. mpc l = MPut r \<longrightarrow> putObject (u_backend c) (u_key c) (vars l) (u_opts c) = Inr r) \<and>
      (\<forall>r. hpc l = HPut r \<longrightarrow> putObject (u_backend c) (u_key c) (vars l) (u_opts c) = Inr r) \<and>
      (primary_issued l \<or> hedge_issued l \<longrightarrow>
         (\<exists>r. putObject (u_backend c) (u_key c) (vars l) (u_opts c) = Inr r)))"

text \<open>The invariant that relates the world to the world \<open>w0\<close> the call started in.\<close>

definition world_inv :: "upload_call \<Rightarrow> world \<Rightarrow> world \<times> upload_state \<Rightarrow> bool" where
  "world_inv c w0 = (\<lambda>(w, l).
     wire w = wire w0 @ sent_puts c l \<and>
     compressRatio w = compressRatio w0 @
        (if mpc l = MStart then []
         else (case Upload_prepare (u_gzip c) (u_key c) (u_data c) (u_opts c) of
                 Inr (v, Some ratio) \<Rightarrow> [ratio]
               | _ \<Rightarrow> [])) \<and>
     uploadSize w = uploadSize w0 @
        (if (\<exists>r. mpc l = MDone r) \<and> adopted l \<noteq> None then [length (v_data (vars l))] else []) \<and>
     (store w = store w0 \<or>
      store w = store_PutObject (putObject_input (u_backend c) (u_key c) (vars l)) (store w0)) \<and>
     (mpc l = MStart \<longrightarrow> store w = store w0) \<and>
     (primaryRes l = Some None \<or> hedgeRes l = Some None \<longrightarrow>
        store w = store_PutObject (putObject_input (u_backend c) (u_key c) (vars l)) (store w0)))"

definition all_inv :: "upload_call \<Rightarrow> world \<Rightarrow> world \<times> upload_state \<Rightarrow> bool" where
  "all_inv c w0 = (\<lambda>(w, l). upload_inv c l \<and> vars_inv c l \<and> world_inv c w0 (w, l))"

definition compress_opts :: UploadOptions where
  "compress_opts = \<lparr>ContentType = ''text/plain'', Compress = True, Immutable = False\<rparr>"

definition compress_call :: "bytes \<Rightarrow> upload_call" where
  "compress_call dat = sample_call dat (Some compress_opts)"

text \<open>
  A run in which the hedge is launched and succeeds first, and the primary PUT then
  fails because the context was cancelled.
\<close>

definition hedge_ok_trace :: "event list" where
  "hedge_ok_trace =
     [MainStep, MainStep, TimerFires, HedgeStep, HedgeStep,
      HedgeReturns PutOK, HedgeStep, HedgeStep,
      PrimaryReturns (PutFailed (External ''context canceled'') False),
      MainStep, MainStep, MainStep]"

text \<open>
  Clients that answer only at the input with the prefixed key of \<open>sample_backend\<close>, and
  return an error at every other input.
\<close>

definition only_prefixed_get :: "GetObjectInput \<Rightarrow> error + GetObjectOutput" where
  "only_prefixed_get i =
     (if i = \<lparr>get_Bucket = ''ct'', get_Key = ''log/abc''\<rparr>
      then Inr \<lparr>out_ContentEncoding = None, out_Body = \<lparr>avail = [7, 8], failure = None\<rparr>\<rparr>
      else Inl (External ''NoSuchKey''))"

definition only_prefixed_delete :: "DeleteObjectInput \<Rightarrow> error option" where
  "only_prefixed_delete i =
     (if i = \<lparr>del_Bucket = ''ct'', del_Key = ''log/abc''\<rparr> then None
      else Some (External ''AccessDenied''))"

definition only_prefixed_copy :: "CopyObjectInput \<Rightarrow> error option" where
  "only_prefixed_copy i =
     (if i = \<lparr>copy_Bucket = ''ct'', CopySource = ''ct/log/abc'', copy_Key = ''log/xyz''\<rparr>
      then None else Some (External ''NoSuchKey''))"

definition only_prefixed_list :: "ListObjectsV2Input \<Rightarrow> error + ListObjectsV2Output" where
  "only_prefixed_list i =
     (if i = \<lparr>list_Bucket = ''ct'', list_Prefix = ''log/a''\<rparr>
      then Inr \<lparr>Contents = [Some ''log/ab''], IsTruncated = None\<rparr>
      else Inl (External ''AccessDenied''))"

section \<open>Properties\<close>

subsection \<open>List\<close>

lemma HasPrefix_iff: "HasPrefix k p \<longleftrightarrow> (\<exists>r. k = p @ r)"
proof
  assume "HasPrefix k p"
  then have "k = p @ drop (length p) k"
    unfolding HasPrefix_def by (metis append_take_drop_id)
  then show "\<exists>r. k = p @ r" ..
next
  assume "\<exists>r. k = p @ r"
  then show "HasPrefix k p" by (auto simp: HasPrefix_def)
qed

lemma TrimPrefix_append: "TrimPrefix (a @ r) a = r"
  by (simp add: TrimPrefix_def HasPrefix_def)

lemma HasPrefix_TrimPrefix: "HasPrefix k (a @ b) \<Longrightarrow> HasPrefix (TrimPrefix k a) b"
  by (auto simp: HasPrefix_iff TrimPrefix_append)

lemma append_TrimPrefix: "HasPrefix k (a @ b) \<Longrightarrow> a @ TrimPrefix k a = k"
  by (auto simp: HasPrefix_iff TrimPrefix_append)

text \<open>
  The loop succeeds exactly when every entry has a key that begins with
  \<open>keyPrefix + prefix\<close>, and then appends the trimmed keys in order.
\<close>

lemma List_loop_Inr:
  "List_loop s p objs acc = Inr keys \<longleftrightarrow>
     (\<forall>ob\<in>set objs. \<exists>k. ob = Some k \<and> HasPrefix k (keyPrefix s @ p)) \<and>
     keys = acc @ map (\<lambda>ob. TrimPrefix (the ob) (keyPrefix s)) objs"
proof (induction objs arbitrary: acc)
  case Nil
  show ?case by auto
next
  case (Cons ob objs)
  show ?case
  proof (cases ob)
    case None
    then show ?thesis by simp
  next
    case (Some k)
    then show ?thesis using Cons.IH [of "acc @ [TrimPrefix k (keyPrefix s)]"] by simp
  qed
qed

lemma List_Inr:
  "List s cl p = Inr keys \<longleftrightarrow>
     (\<exists>out. cl (List_input s p) = Inr out \<and>
        (\<forall>ob\<in>set (Contents out). \<exists>k. ob = Some k \<and> HasPrefix k (keyPrefix s @ p)) \<and>
        IsTruncated out \<noteq> Some True \<and>
        keys = map (\<lambda>ob. TrimPrefix (the ob) (keyPrefix s)) (Contents out))"
proof (cases "cl (List_input s p)")
  case (Inl e)
  then show ?thesis by (simp add: List_def)
next
  case (Inr out)
  show ?thesis
  proof (cases "List_loop s p (Contents out) []")
    case (Inl e)
    then have "\<not> (\<forall>ob\<in>set (Contents out). \<exists>k. ob = Some k \<and> HasPrefix k (keyPrefix s @ p))"
      using List_loop_Inr [of s p "Contents out" "[]"] by auto
    with Inl Inr show ?thesis by (simp add: List_def)
  next
    case ks: (Inr ks)
    then have "(\<forall>ob\<in>set (Contents out). \<exists>k. ob = Some k \<and> HasPrefix k (keyPrefix s @ p)) \<and>
        ks = map (\<lambda>ob. TrimPrefix (the ob) (keyPrefix s)) (Contents out)"
      using List_loop_Inr [of s p "Contents out" "[]" ks] by simp
    with ks Inr show ?thesis by (cases "IsTruncated out") (auto simp: List_def)
  qed
qed

text \<open>
  Claim C5. When the client's response has an entry with a nil key, or an entry whose key
  does not begin with \<open>keyPrefix + prefix\<close>, or \<open>IsTruncated\<close> set to true, \<open>List\<close>
  returns an error (and so no keys). When \<open>List\<close> succeeds, every key it returns begins
  with \<open>prefix\<close>, and it is the key of the response with \<open>keyPrefix\<close> removed from its front.
\<close>

theorem List_fails_or_prefixed:
  "(cl (List_input s p) = Inr out \<and>
      (None \<in> set (Contents out) \<or>
       (\<exists>k. Some k \<in> set (Contents out) \<and> \<not> HasPrefix k (keyPrefix s @ p)) \<or>
       IsTruncated out = Some True)
      \<longrightarrow> (\<exists>e. List s cl p = Inl e)) \<and>
   (List s cl p = Inr keys \<longrightarrow>
      (\<forall>k\<in>set keys. HasPrefix k p) \<and>
      (\<exists>out. cl (List_input s p) = Inr out \<and>
         map (\<lambda>k. Some (keyPrefix s @ k)) keys = Contents out))"
proof (intro conjI impI)
  assume a: "cl (List_input s p) = Inr out \<and>
      (None \<in> set (Contents out) \<or>
       (\<exists>k. Some k \<in> set (Contents out) \<and> \<not> HasPrefix k (keyPrefix s @ p)) \<or>
       IsTruncated out = Some True)"
  have "\<not> (\<exists>keys. List s cl p = Inr keys)"
  proof
    assume "\<exists>keys. List s cl p = Inr keys"
    then obtain ks where "List s cl p = Inr ks" ..
    then have "(\<forall>ob\<in>set (Contents out). \<exists>k. ob = Some k \<and> HasPrefix k (keyPrefix s @ p)) \<and>
        IsTruncated out \<noteq> Some True"
      using a by (auto simp: List_Inr)
    with a show False by force
  qed
  then show "\<exists>e. List s cl p = Inl e" by (cases "List s cl p") auto
next
  assume b: "List s cl p = Inr keys"
  then obtain out where out: "cl (List_input s p) = Inr out"
    and ok: "\<forall>ob\<in>set (Contents out). \<exists>k. ob = Some k \<and> HasPrefix k (keyPrefix s @ p)"
    and keys: "keys = map (\<lambda>ob. TrimPrefix (the ob) (keyPrefix s)) (Contents out)"
    by (auto simp: List_Inr)
  have each: "HasPrefix (TrimPrefix (the ob) (keyPrefix s)) p \<and>
      Some (keyPrefix s @ TrimPrefix (the ob) (keyPrefix s)) = ob"
    if "ob \<in> set (Contents out)" for ob
  proof -
    from ok that obtain k where k: "ob = Some k" "HasPrefix k (keyPrefix s @ p)" by blast
    then show ?thesis by (simp add: HasPrefix_TrimPrefix append_TrimPrefix)
  qed
  show "\<forall>k\<in>set keys. HasPrefix k p"
    unfolding keys using each by auto
  have "map (\<lambda>k. Some (keyPrefix s @ k)) keys = map (\<lambda>ob. ob) (Contents out)"
    unfolding keys map_map by (rule map_cong) (simp_all add: each)
  then have "map (\<lambda>k. Some (keyPrefix s @ k)) keys = Contents out" by simp
  with out show "\<exists>out. cl (List_input s p) = Inr out \<and>
         map (\<lambda>k. Some (keyPrefix s @ k)) keys = Contents out" by blast
qed

theorem List_fails_or_prefixed_witness:
  "(\<exists>e. List sample_backend
          (\<lambda>i. Inr \<lparr>Contents = [Some ''log/ab'', None], IsTruncated = None\<rparr>) ''a'' = Inl e) \<and>
   List sample_backend
     (\<lambda>i. Inr \<lparr>Contents = [Some ''log/ab''], IsTruncated = Some False\<rparr>) ''a'' = Inr [''ab''] \<and>
   HasPrefix ''ab'' ''a''"
proof -
  have 1: "\<exists>e. List sample_backend
          (\<lambda>i. Inr \<lparr>Contents = [Some ''log/ab'', None], IsTruncated = None\<rparr>) ''a'' = Inl e"
    using List_fails_or_prefixed
      [where cl = "\<lambda>i. Inr \<lparr>Contents = [Some ''log/ab'', None], IsTruncated = None\<rparr>"
         and s = sample_backend and p = "''a''"
         and out = "\<lparr>Contents = [Some ''log/ab'', None], IsTruncated = None\<rparr>"]
    by simp
  have 2: "List sample_backend
     (\<lambda>i. Inr \<lparr>Contents = [Some ''log/ab''], IsTruncated = Some False\<rparr>) ''a'' = Inr [''ab'']"
    by (simp add: List_def sample_backend_def HasPrefix_def TrimPrefix_def)
  have 3: "HasPrefix ''ab'' ''a''"
    using List_fails_or_prefixed
      [where cl = "\<lambda>i. Inr \<lparr>Contents = [Some ''log/ab''], IsTruncated = Some False\<rparr>"
         and s = sample_backend and p = "''a''" and keys = "[''ab'']"] 2
    by simp
  show ?thesis using 1 2 3 by blast
qed

subsection \<open>Steps and invariants of one call\<close>

lemma main_step_cases [consumes 1, case_names prepare_fail prepare_ok main_panic main_issue
    select_hedge select_default main_inc main_cancel main_observe]:
  assumes "main_step c (w, l) = Some (w', l')"
  obtains
    e where "mpc l = MStart" "Upload_prepare (u_gzip c) (u_key c) (u_data c) (u_opts c) = Inl e"
      "w' = w" "l' = l\<lparr>mpc := MDone (Some e)\<rparr>"
  | v ratio where "mpc l = MStart"
      "Upload_prepare (u_gzip c) (u_key c) (u_data c) (u_opts c) = Inr (v, ratio)"
      "w' = w\<lparr>compressRatio := compressRatio w @ (case ratio of None \<Rightarrow> [] | Some r \<Rightarrow> [r])\<rparr>"
      "l' = l\<lparr>vars := v, hpc := HWait, mpc := MCall\<rparr>"
  | p where "mpc l = MCall" "putObject (u_backend c) (u_key c) (vars l) (u_opts c) = Inl p"
      "w' = w" "l' = l\<lparr>mpc := MPanic p\<rparr>"
  | r where "mpc l = MCall" "putObject (u_backend c) (u_key c) (vars l) (u_opts c) = Inr r"
      "w' = w\<lparr>wire := wire w @ [r]\<rparr>" "l' = l\<lparr>mpc := MPut r\<rparr>"
  | err e where "mpc l = MSelect err" "hedgeErr l = Some e" "w' = w"
      "l' = l\<lparr>hedgeErr := None, mpc := MInc e, adopted := Some Hedge\<rparr>"
  | err where "mpc l = MSelect err" "hedgeErr l = None" "w' = w"
      "l' = l\<lparr>mpc := MCancel err, adopted := Some Primary\<rparr>"
  | err where "mpc l = MInc err" "w' = w\<lparr>hedgeWins := hedgeWins w + 1\<rparr>"
      "l' = l\<lparr>mpc := MObserve err\<rparr>"
  | err where "mpc l = MCancel err" "w' = w" "l' = l\<lparr>cancelled := True, mpc := MObserve err\<rparr>"
  | err where "mpc l = MObserve err"
      "w' = w\<lparr>uploadSize := uploadSize w @ [length (v_data (vars l))]\<rparr>"
      "l' = l\<lparr>mpc := MDone (case err of None \<Rightarrow> None
               | Some e \<Rightarrow> Some (Errorf ''failed to upload %q to S3: %w'' [u_key c] (Some e)))\<rparr>"
proof (cases "mpc l")
  case MStart
  with assms that(1,2) show ?thesis
    by (cases "Upload_prepare (u_gzip c) (u_key c) (u_data c) (u_opts c)")
       (auto simp: main_step_def)
next
  case MCall
  with assms that(3,4) show ?thesis
    by (cases "putObject (u_backend c) (u_key c) (vars l) (u_opts c)")
       (auto simp: main_step_def)
next
  case (MPut r)
  with assms show ?thesis by (simp add: main_step_def)
next
  case (MSelect err)
  with assms that(5,6) show ?thesis
    by (cases "hedgeErr l") (auto simp: main_step_def)
next
  case (MInc err)
  with assms that(7) show ?thesis by (auto simp: main_step_def)
next
  case (MCancel err)
  with assms that(8) show ?thesis by (auto simp: main_step_def)
next
  case (MObserve err)
  with assms that(9) show ?thesis by (auto simp: main_step_def)
next
  case (MDone res)
  with assms show ?thesis by (simp add: main_step_def)
next
  case (MPanic p)
  with assms show ?thesis by (simp add: main_step_def)
qed

lemma hedge_step_cases [consumes 1, case_names hedge_inc hedge_panic hedge_issue hedge_send
    hedge_cancel]:
  assumes "hedge_step c (w, l) = Some (w', l')"
  obtains
    "hpc l = HInc" "w' = w\<lparr>hedgeRequests := hedgeRequests w + 1\<rparr>" "l' = l\<lparr>hpc := HCall\<rparr>"
  | p where "hpc l = HCall" "putObject (u_backend c) (u_key c) (vars l) (u_opts c) = Inl p"
      "w' = w" "l' = l\<lparr>hpc := HPanic p\<rparr>"
  | r where "hpc l = HCall" "putObject (u_backend c) (u_key c) (vars l) (u_opts c) = Inr r"
      "w' = w\<lparr>wire := wire w @ [r]\<rparr>" "l' = l\<lparr>hpc := HPut r\<rparr>"
  | err where "hpc l = HSend err" "hedgeErr l = None" "w' = w"
      "l' = l\<lparr>hedgeErr := Some err, hpc := HCancel\<rparr>"
  | "hpc l = HCancel" "w' = w" "l' = l\<lparr>cancelled := True, hpc := HExit\<rparr>"
proof (cases "hpc l")
  case HInc
  with assms that(1) show ?thesis by (auto simp: hedge_step_def)
next
  case HCall
  with assms that(2,3) show ?thesis
    by (cases "putObject (u_backend c) (u_key c) (vars l) (u_opts c)")
       (auto simp: hedge_step_def)
next
  case (HSend err)
  with assms that(4) show ?thesis by (auto simp: hedge_step_def split: if_splits)
next
  case HCancel
  with assms that(5) show ?thesis by (auto simp: hedge_step_def)
qed (use assms in \<open>simp_all add: hedge_step_def\<close>)


lemma run_invariant:
  assumes "run c evs st0 = Some st" and "P st0"
    and "\<And>ev w l w' l'. P (w, l) \<Longrightarrow> step c ev (w, l) = Some (w', l') \<Longrightarrow> P (w', l')"
  shows "P st"
  using assms(1,2)
proof (induction evs arbitrary: st0)
  case Nil
  then show ?case by simp
next
  case (Cons ev evs)
  from Cons.prems(1) obtain st1 where s1: "step c ev st0 = Some st1" and r: "run c evs st1 = Some st"
    by (auto split: option.splits)
  have "P st1" using assms(3) [of "fst st0" "snd st0" ev "fst st1" "snd st1"] Cons.prems(2) s1 by simp
  with r show ?case by (rule Cons.IH)
qed

lemma step_cases [consumes 1, case_names prepare_fail prepare_ok main_panic main_issue
    select_hedge select_default main_inc main_cancel main_observe
    hedge_inc hedge_panic hedge_issue hedge_send hedge_cancel
    timer ctx_done primary_returns hedge_returns caller_cancels]:
  assumes "step c ev (w, l) = Some (w', l')"
  obtains
    e where "ev = MainStep" "mpc l = MStart"
      "Upload_prepare (u_gzip c) (u_key c) (u_data c) (u_opts c) = Inl e"
      "w' = w" "l' = l\<lparr>mpc := MDone (Some e)\<rparr>"
  | v ratio where "ev = MainStep" "mpc l = MStart"
      "Upload_prepare (u_gzip c) (u_key c) (u_data c) (u_opts c) = Inr (v, ratio)"
      "w' = w\<lparr>compressRatio := compressRatio w @ (case ratio of None \<Rightarrow> [] | Some r \<Rightarrow> [r])\<rparr>"
      "l' = l\<lparr>vars := v, hpc := HWait, mpc := MCall\<rparr>"
  | p where "ev = MainStep" "mpc l = MCall"
      "putObject (u_backend c) (u_key c) (vars l) (u_opts c) = Inl p"
      "w' = w" "l' = l\<lparr>mpc := MPanic p\<rparr>"
  | r where "ev = MainStep" "mpc l = MCall"
      "putObject (u_backend c) (u_key c) (vars l) (u_opts c) = Inr r"
      "w' = w\<lparr>wire := wire w @ [r]\<rparr>" "l' = l\<lparr>mpc := MPut r\<rparr>"
  | err e where "ev = MainStep" "mpc l = MSelect err" "hedgeErr l = Some e" "w' = w"
      "l' = l\<lparr>hedgeErr := None, mpc := MInc e, adopted := Some Hedge\<rparr>"
  | err where "ev = MainStep" "mpc l = MSelect err" "hedgeErr l = None" "w' = w"
      "l' = l\<lparr>mpc := MCancel err, adopted := Some Primary\<rparr>"
  | err where "ev = MainStep" "mpc l = MInc err" "w' = w\<lparr>hedgeWins := hedgeWins w + 1\<rparr>"
      "l' = l\<lparr>mpc := MObserve err\<rparr>"
  | err where "ev = MainStep" "mpc l = MCancel err" "w' = w"
      "l' = l\<lparr>cancelled := True, mpc := MObserve err\<rparr>"
  | err where "ev = MainStep" "mpc l = MObserve err"
      "w' = w\<lparr>uploadSize := uploadSize w @ [length (v_data (vars l))]\<rparr>"
      "l' = l\<lparr>mpc := MDone (case err of None \<Rightarrow> None
               | Some e \<Rightarrow> Some (Errorf ''failed to upload %q to S3: %w'' [u_key c] (Some e)))\<rparr>"
  | "ev = HedgeStep" "hpc l = HInc" "w' = w\<lparr>hedgeRequests := hedgeRequests w + 1\<rparr>"
      "l' = l\<lparr>hpc := HCall\<rparr>"
  | p where "ev = HedgeStep" "hpc l = HCall"
      "putObject (u_backend c) (u_key c) (vars l) (u_opts c) = Inl p"
      "w' = w" "l' = l\<lparr>hpc := HPanic p\<rparr>"
  | r where "ev = HedgeStep" "hpc l = HCall"
      "putObject (u_backend c) (u_key c) (vars l) (u_opts c) = Inr r"
      "w' = w\<lparr>wire := wire w @ [r]\<rparr>" "l' = l\<lparr>hpc := HPut r\<rparr>"
  | err where "ev = HedgeStep" "hpc l = HSend err" "hedgeErr l = None" "w' = w"
      "l' = l\<lparr>hedgeErr := Some err, hpc := HCancel\<rparr>"
  | "ev = HedgeStep" "hpc l = HCancel" "w' = w" "l' = l\<lparr>cancelled := True, hpc := HExit\<rparr>"
  | "ev = TimerFires" "hpc l = HWait" "w' = w" "l' = l\<lparr>hpc := HInc\<rparr>"
  | "ev = CtxDone" "hpc l = HWait" "cancelled l" "w' = w" "l' = l\<lparr>hpc := HSkipped\<rparr>"
  | oc r where "ev = PrimaryReturns oc" "mpc l = MPut r" "w' = complete_put r oc w"
      "l' = l\<lparr>mpc := MSelect (put_err oc), primaryRes := Some (put_err oc)\<rparr>"
  | oc r where "ev = HedgeReturns oc" "hpc l = HPut r" "w' = complete_put r oc w"
      "l' = l\<lparr>hpc := HSend (put_err oc), hedgeRes := Some (put_err oc)\<rparr>"
  | "ev = CallerCancels" "w' = w" "l' = l\<lparr>cancelled := True\<rparr>"
proof (cases ev)
  case MainStep
  with assms have m: "main_step c (w, l) = Some (w', l')" by (simp add: step_def)
  from m show ?thesis
  proof (cases rule: main_step_cases)
    case (prepare_fail e)
    with MainStep show ?thesis by (rule that(1))
  next
    case (prepare_ok v ratio)
    with MainStep show ?thesis by (rule that(2))
  next
    case (main_panic p)
    with MainStep show ?thesis by (rule that(3))
  next
    case (main_issue r)
    with MainStep show ?thesis by (rule that(4))
  next
    case (select_hedge err e)
    with MainStep show ?thesis by (rule that(5))
  next
    case (select_default err)
    with MainStep show ?thesis by (rule that(6))
  next
    case (main_inc err)
    with MainStep show ?thesis by (rule that(7))
  next
    case (main_cancel err)
    with MainStep show ?thesis by (rule that(8))
  next
    case (main_observe err)
    with MainStep show ?thesis by (rule that(9))
  qed
next
  case HedgeStep
  with assms have h: "hedge_step c (w, l) = Some (w', l')" by (simp add: step_def)
  from h show ?thesis
  proof (cases rule: hedge_step_cases)
    case hedge_inc
    with HedgeStep show ?thesis by (rule that(10))
  next
    case (hedge_panic p)
    with HedgeStep show ?thesis by (rule that(11))
  next
    case (hedge_issue r)
    with HedgeStep show ?thesis by (rule that(12))
  next
    case (hedge_send err)
    with HedgeStep show ?thesis by (rule that(13))
  next
    case hedge_cancel
    with HedgeStep show ?thesis by (rule that(14))
  qed
next
  case TimerFires
  with assms that(15) show ?thesis by (auto simp: step_def split: if_splits)
next
  case CtxDone
  with assms that(16) show ?thesis by (auto simp: step_def split: if_splits)
next
  case (PrimaryReturns oc)
  with assms that(17) show ?thesis by (cases "mpc l") (auto simp: step_def)
next
  case (HedgeReturns oc)
  with assms that(18) show ?thesis by (cases "hpc l") (auto simp: step_def)
next
  case CallerCancels
  with assms that(19) show ?thesis by (auto simp: step_def)
qed

lemma upload_inv_init: "upload_inv c (init_state c)"
  by (simp add: upload_inv_def main_inv_def hedge_inv_def init_state_def hedge_sent_def)

lemma upload_inv_step:
  assumes "step c ev (w, l) = Some (w', l')" and "upload_inv c l"
  shows "upload_inv c l'"
  using assms
  by (cases rule: step_cases)
     (auto simp: upload_inv_def main_inv_def hedge_inv_def hedge_sent_def Upload_result_def
           split: main_pc.splits hedge_pc.splits if_splits)

lemma upload_inv_run:
  assumes "run c evs (w0, init_state c) = Some (w, l)"
  shows "upload_inv c l"
proof -
  have "(\<lambda>(w, l). upload_inv c l) (w, l)"
    using assms
  proof (rule run_invariant)
    show "(\<lambda>(w, l). upload_inv c l) (w0, init_state c)" by (simp add: upload_inv_init)
  next
    fix ev w l w' l'
    assume "(\<lambda>(w, l). upload_inv c l) (w, l)" and "step c ev (w, l) = Some (w', l')"
    then show "(\<lambda>(w, l). upload_inv c l) (w', l')" by (simp add: upload_inv_step)
  qed
  then show ?thesis by simp
qed

lemma complete_put_counters [simp]:
  "hedgeRequests (complete_put r oc w) = hedgeRequests w"
  "hedgeWins (complete_put r oc w) = hedgeWins w"
  "uploadSize (complete_put r oc w) = uploadSize w"
  "compressRatio (complete_put r oc w) = compressRatio w"
  "wire (complete_put r oc w) = wire w"
  by (simp_all add: complete_put_def)

lemma counters_step:
  assumes "step c ev (w, l) = Some (w', l')" and "upload_inv c l"
  shows "hedgeRequests w' + of_bool (hedge_launched l) = hedgeRequests w + of_bool (hedge_launched l')"
    and "hedgeWins w' + of_bool (hedge_won l) = hedgeWins w + of_bool (hedge_won l')"
  using assms
  by (cases rule: step_cases;
      auto simp: upload_inv_def main_inv_def hedge_launched_def hedge_won_def
           split: main_pc.splits hedge_pc.splits)+

lemma won_launched:
  assumes "upload_inv c l" and "hedge_won l"
  shows "hedge_launched l \<and> hedge_sent l \<and> adopted l = Some Hedge"
  using assms
  by (auto simp: upload_inv_def hedge_inv_def hedge_won_def hedge_launched_def hedge_sent_def
      split: if_splits)


lemma count_update:
  "i < length xs \<Longrightarrow>
     length (filter P (xs[i := y])) + of_bool (P (xs ! i)) = length (filter P xs) + of_bool (P y)"
proof (induction xs arbitrary: i)
  case Nil
  then show ?case by simp
next
  case (Cons x xs)
  show ?case
  proof (cases i)
    case 0
    then show ?thesis by simp
  next
    case (Suc j)
    with Cons.prems have "j < length xs" by simp
    from Cons.IH [OF this] Suc show ?thesis by simp
  qed
qed

lemma sys_run_invariant:
  assumes "sys_run sevs st0 = Some st" and "P st0"
    and "\<And>sev st st'. P st \<Longrightarrow> sys_step sev st = Some st' \<Longrightarrow> P st'"
  shows "P st"
  using assms(1,2)
proof (induction sevs arbitrary: st0)
  case Nil
  then show ?case by simp
next
  case (Cons sev sevs)
  from Cons.prems(1) obtain st1 where s1: "sys_step sev st0 = Some st1"
    and r: "sys_run sevs st1 = Some st"
    by (auto split: option.splits)
  have "P st1" using assms(3) Cons.prems(2) s1 by blast
  with r show ?case by (rule Cons.IH)
qed

lemma sys_inv_step:
  assumes "sys_inv st" and "sys_step sev st = Some st'"
  shows "sys_inv st'"
proof -
  obtain w calls where st: "st = (w, calls)" by (cases st)
  show ?thesis
  proof (cases sev)
    case (Call c)
    have "\<not> hedge_launched (init_state c)" "\<not> hedge_won (init_state c)"
      by (simp_all add: init_state_def hedge_launched_def hedge_won_def)
    with Call assms st show ?thesis
      by (auto simp: sys_inv_def sys_step_def upload_inv_init)
  next
    case (Act i ev)
    with assms(2) st obtain w' l' where i: "i < length calls"
      and s: "step (fst (calls ! i)) ev (w, snd (calls ! i)) = Some (w', l')"
      and st': "st' = (w', calls[i := (fst (calls ! i), l')])"
      by (auto simp: sys_step_def split: if_splits option.splits)
    from assms(1) st i have inv: "upload_inv (fst (calls ! i)) (snd (calls ! i))"
      by (simp add: sys_inv_def list_all_length)
    have all: "list_all (\<lambda>cl. upload_inv (fst cl) (snd cl)) (calls[i := (fst (calls ! i), l')])"
      using assms(1) st i upload_inv_step [OF s inv]
      by (auto simp: sys_inv_def list_all_length nth_list_update)
    have h: "hedgeRequests w' = length (filter (\<lambda>cl. hedge_launched (snd cl)) (calls[i := (fst (calls ! i), l')]))"
      using counters_step(1) [OF s inv] assms(1) st
        count_update [OF i, of "\<lambda>cl. hedge_launched (snd cl)" "(fst (calls ! i), l')"]
      by (simp add: sys_inv_def)
    have v: "hedgeWins w' = length (filter (\<lambda>cl. hedge_won (snd cl)) (calls[i := (fst (calls ! i), l')]))"
      using counters_step(2) [OF s inv] assms(1) st
        count_update [OF i, of "\<lambda>cl. hedge_won (snd cl)" "(fst (calls ! i), l')"]
      by (simp add: sys_inv_def)
    from all h v st' show ?thesis by (simp add: sys_inv_def)
  qed
qed

lemma sys_inv_run:
  assumes "sys_run sevs (new_world st0, []) = Some (w, calls)"
  shows "sys_inv (w, calls)"
  using assms
proof (rule sys_run_invariant)
  show "sys_inv (new_world st0, [])" by (simp add: sys_inv_def new_world_def)
qed (rule sys_inv_step)

lemma filter_won_le_launched:
  assumes "list_all (\<lambda>cl. upload_inv (fst cl) (snd cl)) calls"
  shows "length (filter (\<lambda>cl. hedge_won (snd cl)) calls)
       \<le> length (filter (\<lambda>cl. hedge_launched (snd cl)) calls)"
  using assms
proof (induction calls)
  case Nil
  then show ?case by simp
next
  case (Cons cl calls)
  then show ?case using won_launched [of "fst cl" "snd cl"] by auto
qed

subsection \<open>Evaluating runs\<close>

lemmas eval_defs = step_def main_step_def hedge_step_def init_state_def sample_call_def
  sample_backend_def sample_gzip_def Upload_prepare_def putObject_def putObject_options_def
  putObject_input_def complete_put_def store_PutObject_def new_world_def
  hedge_first_trace_def primary_first_trace_def sys_step_def immutable_call_def
  immutable_opts_def

subsection \<open>The result of Upload\<close>

text \<open>
  Claim C1 as stated fails: in the run \<open>hedge_first_trace\<close> the primary PUT succeeds, and
  \<open>Upload\<close> returns the error of the hedge, because the hedge had already sent its
  error on \<open>hedgeErr\<close> when the caller reached the select at line 178.
\<close>

theorem Upload_primary_ok_returns_error:
  "\<exists>w l. run immutable_call hedge_first_trace
            (new_world Map.empty, init_state immutable_call) = Some (w, l) \<and>
     primaryRes l = Some None \<and>
     hedgeRes l = Some (Some (External ''PreconditionFailed'')) \<and>
     mpc l = MDone (Some (Errorf ''failed to upload %q to S3: %w'' [''abc'']
                      (Some (External ''PreconditionFailed''))))"
  by (simp add: eval_defs)

text \<open>
  Claim C1, amended. When \<open>Upload\<close> has returned, it returns success exactly when the
  attempt whose result it adopted succeeded: the hedge's, if the hedge had sent its result
  on the channel when the caller reached the select, and the primary's otherwise. So a
  successful return implies that at least one PUT succeeded, and a successful primary
  gives a successful return whenever the primary's result is the adopted one.
\<close>

theorem Upload_returns_adopted_result:
  assumes "run c evs (w0, init_state c) = Some (w, l)" and "mpc l = MDone res"
  shows "(res = None \<longleftrightarrow>
            adopted l = Some Primary \<and> primaryRes l = Some None \<or>
            adopted l = Some Hedge \<and> hedgeRes l = Some None) \<and>
         (res = None \<longrightarrow> primaryRes l = Some None \<or> hedgeRes l = Some None) \<and>
         (adopted l = Some Hedge \<longrightarrow> hedge_sent l) \<and>
         (adopted l \<noteq> Some Hedge \<and> primaryRes l = Some None \<longrightarrow> res = None)"
proof -
  from assms(1) have inv: "upload_inv c l" by (rule upload_inv_run)
  then have m: "main_inv c l" and h: "hedge_inv l" by (simp_all add: upload_inv_def)
  from m assms(2) have
    d: "adopted l = None \<and> primaryRes l = None \<and> res \<noteq> None \<or>
        adopted l = Some Primary \<and> (\<exists>e. primaryRes l = Some e \<and> res = Upload_result c e) \<or>
        adopted l = Some Hedge \<and> (\<exists>e. hedgeRes l = Some e \<and> res = Upload_result c e)"
    by (auto simp: main_inv_def)
  have u: "Upload_result c e = None \<longleftrightarrow> e = None" for e
    by (cases e) (simp_all add: Upload_result_def)
  from h have s: "adopted l = Some Hedge \<longrightarrow> hedge_sent l"
    by (auto simp: hedge_inv_def split: if_splits)
  from d show ?thesis
  proof (elim disjE conjE exE)
    assume "adopted l = None" "primaryRes l = None" "res \<noteq> None"
    with s show ?thesis by auto
  next
    fix e assume "adopted l = Some Primary" "primaryRes l = Some e" "res = Upload_result c e"
    with s show ?thesis by (simp add: u)
  next
    fix e assume "adopted l = Some Hedge" "hedgeRes l = Some e" "res = Upload_result c e"
    with s show ?thesis by (simp add: u)
  qed
qed

theorem Upload_returns_adopted_result_witness:
  "\<exists>w l. run immutable_call primary_first_trace
            (new_world Map.empty, init_state immutable_call) = Some (w, l) \<and>
     mpc l = MDone None \<and>
     (adopted l = Some Primary \<and> primaryRes l = Some None \<or>
      adopted l = Some Hedge \<and> hedgeRes l = Some None)"
proof -
  have "\<exists>w l. run immutable_call primary_first_trace
            (new_world Map.empty, init_state immutable_call) = Some (w, l) \<and>
     mpc l = MDone None"
    by (simp add: eval_defs)
  then obtain w l where
    r: "run immutable_call primary_first_trace
            (new_world Map.empty, init_state immutable_call) = Some (w, l)"
    and d: "mpc l = MDone None"
    by blast
  from Upload_returns_adopted_result [OF r d]
  have "adopted l = Some Primary \<and> primaryRes l = Some None \<or>
      adopted l = Some Hedge \<and> hedgeRes l = Some None"
    by simp
  with r d show ?thesis by blast
qed

subsection \<open>The hedge counters\<close>

text \<open>
  Claim C2. At every moment of every interleaving of any number of calls on a new backend:
  \<open>hedgeRequests\<close> (\<open>s3_hedges_total\<close>) is the number of calls whose hedge took the timer
  case and was launched; \<open>hedgeWins\<close> (\<open>s3_hedges_successful_total\<close>) is the number of
  calls in which the caller received the hedge's result, and in each of those the hedge's
  result is the adopted one and the hedge was launched; a hedge PUT is only issued by a
  launched hedge; hence \<open>hedgeWins\<close> never exceeds \<open>hedgeRequests\<close>.
\<close>

theorem hedge_counters:
  assumes "sys_run sevs (new_world st0, []) = Some (w, calls)"
  shows "hedgeRequests w = length (filter (\<lambda>cl. hedge_launched (snd cl)) calls) \<and>
         hedgeWins w = length (filter (\<lambda>cl. hedge_won (snd cl)) calls) \<and>
         list_all (\<lambda>cl. hedge_won (snd cl) \<longrightarrow>
            adopted (snd cl) = Some Hedge \<and> hedge_sent (snd cl) \<and> hedge_launched (snd cl)) calls \<and>
         list_all (\<lambda>cl. hedge_issued (snd cl) \<longrightarrow> hedge_launched (snd cl)) calls \<and>
         hedgeWins w \<le> hedgeRequests w"
proof -
  from assms have inv: "sys_inv (w, calls)" by (rule sys_inv_run)
  then have all: "list_all (\<lambda>cl. upload_inv (fst cl) (snd cl)) calls"
    and h: "hedgeRequests w = length (filter (\<lambda>cl. hedge_launched (snd cl)) calls)"
    and v: "hedgeWins w = length (filter (\<lambda>cl. hedge_won (snd cl)) calls)"
    by (simp_all add: sys_inv_def)
  have won: "list_all (\<lambda>cl. hedge_won (snd cl) \<longrightarrow>
            adopted (snd cl) = Some Hedge \<and> hedge_sent (snd cl) \<and> hedge_launched (snd cl)) calls"
    using all won_launched unfolding list_all_iff by blast
  have "hedge_issued l \<longrightarrow> hedge_launched l" for l
    by (cases "hpc l") (simp_all add: hedge_issued_def hedge_launched_def)
  then have iss: "list_all (\<lambda>cl. hedge_issued (snd cl) \<longrightarrow> hedge_launched (snd cl)) calls"
    unfolding list_all_iff by blast
  from filter_won_le_launched [OF all] h v have "hedgeWins w \<le> hedgeRequests w" by simp
  with h v won iss show ?thesis by blast
qed

theorem hedge_counters_witness:
  "\<exists>w calls.
     sys_run (Call immutable_call # map (Act 0) hedge_first_trace)
       (new_world Map.empty, []) = Some (w, calls) \<and>
     hedgeRequests w = 1 \<and> hedgeWins w = 1 \<and> hedgeWins w \<le> hedgeRequests w"
proof -
  have "\<exists>w calls.
     sys_run (Call immutable_call # map (Act 0) hedge_first_trace)
       (new_world Map.empty, []) = Some (w, calls) \<and>
     hedgeRequests w = 1 \<and> hedgeWins w = 1"
    by (simp add: eval_defs)
  then obtain w calls where
    r: "sys_run (Call immutable_call # map (Act 0) hedge_first_trace)
       (new_world Map.empty, []) = Some (w, calls)"
    and c: "hedgeRequests w = 1" "hedgeWins w = 1"
    by blast
  from hedge_counters [OF r] have "hedgeWins w \<le> hedgeRequests w" by simp
  with r c show ?thesis by blast
qed

subsection \<open>The variables, the requests and the observations of one call\<close>

lemma vars_inv_init: "vars_inv c (init_state c)"
  by (simp add: vars_inv_def init_state_def primary_issued_def hedge_issued_def
      split: sum.splits prod.splits)

lemma vars_inv_step:
  assumes "step c ev (w, l) = Some (w', l')" and "vars_inv c l" and "upload_inv c l"
  shows "vars_inv c l'"
  using assms
  by (cases rule: step_cases)
     (auto simp: vars_inv_def upload_inv_def main_inv_def primary_issued_def hedge_issued_def
           split: sum.splits prod.splits main_pc.splits hedge_pc.splits)

lemma store_PutObject_idem [simp]:
  "store_PutObject i (store_PutObject i st) = store_PutObject i st"
  by (simp add: store_PutObject_def)

lemma store_complete_put:
  "store (complete_put r oc w) =
     (if put_applied oc then store_PutObject (req_input r) (store w) else store w)"
  by (simp add: complete_put_def)

lemma put_err_None: "put_err oc = None \<longleftrightarrow> oc = PutOK"
  by (cases oc) simp_all

lemma putObject_Inr_input:
  "putObject s key v opts = Inr r \<Longrightarrow> req_input r = putObject_input s key v"
  by (auto simp: putObject_def split: sum.splits)

lemma world_inv_init: "world_inv c w0 (w0, init_state c)"
  by (simp add: world_inv_def sent_puts_def init_state_def primary_issued_def hedge_issued_def
      split: sum.splits)

lemma wire_step:
  assumes "step c ev (w, l) = Some (w', l')" and "vars_inv c l" and "upload_inv c l"
    and "wire w = wire w0 @ sent_puts c l"
  shows "wire w' = wire w0 @ sent_puts c l'"
  using assms
  by (cases rule: step_cases)
     (auto simp: sent_puts_def vars_inv_def upload_inv_def main_inv_def primary_issued_def
           hedge_issued_def replicate_append_same
           split: sum.splits prod.splits main_pc.splits hedge_pc.splits)


lemma ratio_step:
  assumes "step c ev (w, l) = Some (w', l')"
    and "compressRatio w = compressRatio w0 @
        (if mpc l = MStart then []
         else (case Upload_prepare (u_gzip c) (u_key c) (u_data c) (u_opts c) of
                 Inr (v, Some ratio) \<Rightarrow> [ratio]
               | _ \<Rightarrow> []))"
  shows "compressRatio w' = compressRatio w0 @
        (if mpc l' = MStart then []
         else (case Upload_prepare (u_gzip c) (u_key c) (u_data c) (u_opts c) of
                 Inr (v, Some ratio) \<Rightarrow> [ratio]
               | _ \<Rightarrow> []))"
  using assms
  by (cases rule: step_cases) (auto split: option.splits)

lemma size_step:
  assumes "step c ev (w, l) = Some (w', l')" and "vars_inv c l" and "upload_inv c l"
    and "uploadSize w = uploadSize w0 @
        (if (\<exists>r. mpc l = MDone r) \<and> adopted l \<noteq> None then [length (v_data (vars l))] else [])"
  shows "uploadSize w' = uploadSize w0 @
        (if (\<exists>r. mpc l' = MDone r) \<and> adopted l' \<noteq> None then [length (v_data (vars l'))] else [])"
  using assms
  by (cases rule: step_cases)
     (auto simp: upload_inv_def main_inv_def)

lemma store_step:
  assumes "step c ev (w, l) = Some (w', l')" and "vars_inv c l" and "upload_inv c l"
    and "store w = store w0 \<or>
      store w = store_PutObject (putObject_input (u_backend c) (u_key c) (vars l)) (store w0)"
    and "mpc l = MStart \<longrightarrow> store w = store w0"
    and "primaryRes l = Some None \<or> hedgeRes l = Some None \<longrightarrow>
        store w = store_PutObject (putObject_input (u_backend c) (u_key c) (vars l)) (store w0)"
  shows "(store w' = store w0 \<or>
      store w' = store_PutObject (putObject_input (u_backend c) (u_key c) (vars l')) (store w0)) \<and>
     (mpc l' = MStart \<longrightarrow> store w' = store w0) \<and>
     (primaryRes l' = Some None \<or> hedgeRes l' = Some None \<longrightarrow>
        store w' = store_PutObject (putObject_input (u_backend c) (u_key c) (vars l')) (store w0))"
  using assms
  by (cases rule: step_cases)
     (auto simp: upload_inv_def main_inv_def hedge_inv_def hedge_sent_def vars_inv_def
        store_complete_put put_err_None
        dest!: putObject_Inr_input split: if_splits)

lemma world_inv_step:
  assumes s: "step c ev (w, l) = Some (w', l')" and v: "vars_inv c l" and u: "upload_inv c l"
    and i: "world_inv c w0 (w, l)"
  shows "world_inv c w0 (w', l')"
proof -
  from i have 1: "wire w = wire w0 @ sent_puts c l" by (simp add: world_inv_def)
  from i have 2: "compressRatio w = compressRatio w0 @
        (if mpc l = MStart then []
         else (case Upload_prepare (u_gzip c) (u_key c) (u_data c) (u_opts c) of
                 Inr (v, Some ratio) \<Rightarrow> [ratio]
               | _ \<Rightarrow> []))" by (simp add: world_inv_def)
  from i have 3: "uploadSize w = uploadSize w0 @
        (if (\<exists>r. mpc l = MDone r) \<and> adopted l \<noteq> None then [length (v_data (vars l))] else [])"
    by (simp add: world_inv_def)
  from i have 4: "store w = store w0 \<or>
      store w = store_PutObject (putObject_input (u_backend c) (u_key c) (vars l)) (store w0)"
    and 5: "mpc l = MStart \<longrightarrow> store w = store w0"
    and 6: "primaryRes l = Some None \<or> hedgeRes l = Some None \<longrightarrow>
        store w = store_PutObject (putObject_input (u_backend c) (u_key c) (vars l)) (store w0)"
    by (simp_all add: world_inv_def)
  from wire_step [OF s v u 1] ratio_step [OF s 2] size_step [OF s v u 3]
    store_step [OF s v u 4 5 6]
  show ?thesis unfolding world_inv_def by simp
qed

lemma all_inv_run:
  assumes "run c evs (w0, init_state c) = Some (w, l)"
  shows "all_inv c w0 (w, l)"
  using assms
proof (rule run_invariant)
  show "all_inv c w0 (w0, init_state c)"
    by (simp add: all_inv_def upload_inv_init vars_inv_init world_inv_init)
next
  fix ev w l w' l'
  assume "all_inv c w0 (w, l)" and "step c ev (w, l) = Some (w', l')"
  then show "all_inv c w0 (w', l')"
    by (simp add: all_inv_def upload_inv_step vars_inv_step world_inv_step)
qed

lemma sent_requests:
  assumes "run c evs (w0, init_state c) = Some (w, l)"
  shows "wire w = wire w0 @ sent_puts c l"
    and "r \<in> set (sent_puts c l) \<Longrightarrow>
      \<exists>v ratio. Upload_prepare (u_gzip c) (u_key c) (u_data c) (u_opts c) = Inr (v, ratio) \<and>
         vars l = v \<and> putObject (u_backend c) (u_key c) v (u_opts c) = Inr r"
proof -
  from all_inv_run [OF assms] have u: "upload_inv c l" and v: "vars_inv c l"
    and i: "world_inv c w0 (w, l)" by (simp_all add: all_inv_def)
  from i show "wire w = wire w0 @ sent_puts c l" by (simp add: world_inv_def)
  assume r: "r \<in> set (sent_puts c l)"
  then have p: "putObject (u_backend c) (u_key c) (vars l) (u_opts c) = Inr r"
    and iss: "primary_issued l \<or> hedge_issued l"
    by (auto simp: sent_puts_def split: sum.splits if_splits)
  from iss u have ns: "mpc l \<noteq> MStart" "\<not> (\<exists>e. mpc l = MDone e \<and> adopted l = None)"
    by (auto simp: primary_issued_def hedge_issued_def upload_inv_def main_inv_def)
  with v p show "\<exists>v ratio. Upload_prepare (u_gzip c) (u_key c) (u_data c) (u_opts c) = Inr (v, ratio) \<and>
         vars l = v \<and> putObject (u_backend c) (u_key c) v (u_opts c) = Inr r"
    by (auto simp: vars_inv_def split: sum.splits prod.splits)
qed

subsection \<open>What the sequential prefix and the put closure compute\<close>

lemma Upload_prepare_Inr:
  assumes "Upload_prepare gz key dat opts = Inr (v, ratio)"
  shows "v_contentType v =
           (case opts of
              None \<Rightarrow> ''application/octet-stream''
            | Some opt \<Rightarrow>
                if ContentType opt = '''' then ''application/octet-stream'' else ContentType opt)"
    and "v_cacheControl v =
           (case opts of
              None \<Rightarrow> None
            | Some opt \<Rightarrow>
                if Immutable opt then Some ''public, max-age=604800, immutable'' else None)"
    and "opts = None \<or> \<not> Compress (the opts) \<Longrightarrow>
           v_contentEncoding v = None \<and> v_data v = dat \<and> ratio = None"
    and "opts \<noteq> None \<and> Compress (the opts) \<Longrightarrow>
           v_contentEncoding v = Some ''gzip'' \<and> gz dat = Inr (v_data v) \<and>
           ratio = Some (float64_div (length (v_data v)) (length dat))"
  using assms
  by (auto simp: Upload_prepare_def Let_def split: option.splits if_splits sum.splits)

lemma putObject_Some:
  "putObject s key v (Some opt) =
     Inr \<lparr>req_input = putObject_input s key v,
          req_options =
            (if Immutable opt \<and> BaseEndpoint (client s) = Some ''https://fly.storage.tigris.dev''
             then (client s)\<lparr>APIOptions := APIOptions (client s) @ [AddHeaderValue ''If-Match'' '''']\<rparr>
             else client s)\<rparr>"
  by (auto simp: putObject_def putObject_options_def)

lemma putObject_None: "putObject s key v None = Inl NilPointerDereference"
  by (simp add: putObject_def putObject_options_def)

subsection \<open>The headers of the PUT\<close>

text \<open>
  Claim C3. Every PUT that an upload sends carries, when \<open>opts.Immutable\<close> is set, the
  cache-control value \<open>public, max-age=604800, immutable\<close>, and none otherwise; the
  per-request function adds the header \<open>If-Match: ""\<close> to the client's API options
  exactly when \<open>opts.Immutable\<close> is set and the client's base endpoint is
  \<open>https://fly.storage.tigris.dev\<close>, and adds nothing otherwise. With nil options no PUT
  is sent at all.
\<close>

theorem immutable_put_headers:
  assumes "run c evs (w0, init_state c) = Some (w, l)"
  shows "\<exists>sent. wire w = wire w0 @ sent \<and>
     (case u_opts c of
        None \<Rightarrow> sent = []
      | Some opt \<Rightarrow>
          list_all (\<lambda>r.
             put_CacheControl (req_input r) =
               (if Immutable opt then Some ''public, max-age=604800, immutable'' else None) \<and>
             APIOptions (req_options r) =
               APIOptions (client (u_backend c)) @
               (if Immutable opt \<and>
                   BaseEndpoint (client (u_backend c)) = Some ''https://fly.storage.tigris.dev''
                then [AddHeaderValue ''If-Match'' ''''] else [])) sent)"
proof (intro exI conjI)
  show "wire w = wire w0 @ sent_puts c l" using assms by (rule sent_requests(1))
  show "case u_opts c of
        None \<Rightarrow> sent_puts c l = []
      | Some opt \<Rightarrow>
          list_all (\<lambda>r.
             put_CacheControl (req_input r) =
               (if Immutable opt then Some ''public, max-age=604800, immutable'' else None) \<and>
             APIOptions (req_options r) =
               APIOptions (client (u_backend c)) @
               (if Immutable opt \<and>
                   BaseEndpoint (client (u_backend c)) = Some ''https://fly.storage.tigris.dev''
                then [AddHeaderValue ''If-Match'' ''''] else [])) (sent_puts c l)"
  proof (cases "u_opts c")
    case None
    then show ?thesis by (simp add: sent_puts_def putObject_None)
  next
    case (Some opt)
    have "put_CacheControl (req_input r) =
               (if Immutable opt then Some ''public, max-age=604800, immutable'' else None) \<and>
             APIOptions (req_options r) =
               APIOptions (client (u_backend c)) @
               (if Immutable opt \<and>
                   BaseEndpoint (client (u_backend c)) = Some ''https://fly.storage.tigris.dev''
                then [AddHeaderValue ''If-Match'' ''''] else [])"
      if "r \<in> set (sent_puts c l)" for r
    proof -
      from sent_requests(2) [OF assms that] Some obtain v ratio where
        p: "Upload_prepare (u_gzip c) (u_key c) (u_data c) (Some opt) = Inr (v, ratio)"
        and r: "putObject (u_backend c) (u_key c) v (Some opt) = Inr r"
        by auto
      from r have "r = \<lparr>req_input = putObject_input (u_backend c) (u_key c) v,
          req_options =
            (if Immutable opt \<and> BaseEndpoint (client (u_backend c)) = Some ''https://fly.storage.tigris.dev''
             then (client (u_backend c))\<lparr>APIOptions := APIOptions (client (u_backend c)) @ [AddHeaderValue ''If-Match'' '''']\<rparr>
             else client (u_backend c))\<rparr>"
        by (simp add: putObject_Some)
      with Upload_prepare_Inr(2) [OF p] show ?thesis
        by (simp add: putObject_input_def)
    qed
    with Some show ?thesis by (simp add: list_all_iff)
  qed
qed

theorem immutable_put_headers_witness:
  "\<exists>w l sent. run immutable_call hedge_first_trace
            (new_world Map.empty, init_state immutable_call) = Some (w, l) \<and>
     wire w = sent \<and> length sent = 2 \<and>
     list_all (\<lambda>r.
        put_CacheControl (req_input r) = Some ''public, max-age=604800, immutable'' \<and>
        APIOptions (req_options r) = [AddHeaderValue ''If-Match'' '''']) sent"
proof -
  have "\<exists>w l. run immutable_call hedge_first_trace
            (new_world Map.empty, init_state immutable_call) = Some (w, l) \<and>
     length (wire w) = 2"
    by (simp add: eval_defs)
  then obtain w l where
    r: "run immutable_call hedge_first_trace
            (new_world Map.empty, init_state immutable_call) = Some (w, l)"
    and n: "length (wire w) = 2"
    by blast
  from immutable_put_headers [OF r]
  have "list_all (\<lambda>r.
        put_CacheControl (req_input r) = Some ''public, max-age=604800, immutable'' \<and>
        APIOptions (req_options r) = [AddHeaderValue ''If-Match'' '''']) (wire w)"
    by (simp add: immutable_call_def immutable_opts_def sample_call_def sample_backend_def
        new_world_def)
  with r n show ?thesis by blast
qed

text \<open>
  Claim C8. The input that the put closure passes to \<open>PutObject\<close> has the content type
  \<open>application/octet-stream\<close> when the options are nil or their \<open>ContentType\<close> is
  empty, and \<open>opts.ContentType\<close> otherwise; it has the content encoding \<open>gzip\<close> when
  \<open>opts.Compress\<close> is set and no content encoding otherwise. Every PUT an upload sends
  carries these two values.
\<close>

theorem put_content_headers:
  assumes "run c evs (w0, init_state c) = Some (w, l)"
  shows "(\<forall>v ratio. Upload_prepare (u_gzip c) (u_key c) (u_data c) (u_opts c) = Inr (v, ratio) \<longrightarrow>
            put_ContentType (putObject_input (u_backend c) (u_key c) v) =
              Some (case u_opts c of
                      None \<Rightarrow> ''application/octet-stream''
                    | Some opt \<Rightarrow>
                        if ContentType opt = '''' then ''application/octet-stream''
                        else ContentType opt) \<and>
            put_ContentEncoding (putObject_input (u_backend c) (u_key c) v) =
              (if u_opts c \<noteq> None \<and> Compress (the (u_opts c)) then Some ''gzip'' else None)) \<and>
         (\<exists>sent. wire w = wire w0 @ sent \<and>
            list_all (\<lambda>r.
              put_ContentType (req_input r) =
                Some (case u_opts c of
                        None \<Rightarrow> ''application/octet-stream''
                      | Some opt \<Rightarrow>
                          if ContentType opt = '''' then ''application/octet-stream''
                          else ContentType opt) \<and>
              put_ContentEncoding (req_input r) =
                (if u_opts c \<noteq> None \<and> Compress (the (u_opts c)) then Some ''gzip'' else None)) sent)"
proof -
  have a: "put_ContentType (putObject_input (u_backend c) (u_key c) v) =
              Some (case u_opts c of
                      None \<Rightarrow> ''application/octet-stream''
                    | Some opt \<Rightarrow>
                        if ContentType opt = '''' then ''application/octet-stream''
                        else ContentType opt) \<and>
            put_ContentEncoding (putObject_input (u_backend c) (u_key c) v) =
              (if u_opts c \<noteq> None \<and> Compress (the (u_opts c)) then Some ''gzip'' else None)"
    if p: "Upload_prepare (u_gzip c) (u_key c) (u_data c) (u_opts c) = Inr (v, ratio)" for v ratio
    using Upload_prepare_Inr(1) [OF p] Upload_prepare_Inr(3) [OF p] Upload_prepare_Inr(4) [OF p]
    by (cases "u_opts c \<noteq> None \<and> Compress (the (u_opts c))") (simp_all add: putObject_input_def)
  have b: "put_ContentType (req_input r) =
                Some (case u_opts c of
                        None \<Rightarrow> ''application/octet-stream''
                      | Some opt \<Rightarrow>
                          if ContentType opt = '''' then ''application/octet-stream''
                          else ContentType opt) \<and>
              put_ContentEncoding (req_input r) =
                (if u_opts c \<noteq> None \<and> Compress (the (u_opts c)) then Some ''gzip'' else None)"
    if "r \<in> set (sent_puts c l)" for r
  proof -
    from sent_requests(2) [OF assms that] obtain v ratio where
      p: "Upload_prepare (u_gzip c) (u_key c) (u_data c) (u_opts c) = Inr (v, ratio)"
      and r: "putObject (u_backend c) (u_key c) v (u_opts c) = Inr r"
      by auto
    from putObject_Inr_input [OF r] a [OF p] show ?thesis by simp
  qed
  have "wire w = wire w0 @ sent_puts c l" using assms by (rule sent_requests(1))
  with a b show ?thesis unfolding list_all_iff by blast
qed

theorem put_content_headers_witness:
  "\<exists>w l. run immutable_call hedge_first_trace
            (new_world Map.empty, init_state immutable_call) = Some (w, l) \<and>
     length (wire w) = 2 \<and>
     list_all (\<lambda>r.
        put_ContentType (req_input r) = Some ''application/octet-stream'' \<and>
        put_ContentEncoding (req_input r) = None) (wire w)"
proof -
  have "\<exists>w l. run immutable_call hedge_first_trace
            (new_world Map.empty, init_state immutable_call) = Some (w, l) \<and>
     length (wire w) = 2"
    by (simp add: eval_defs)
  then obtain w l where
    r: "run immutable_call hedge_first_trace
            (new_world Map.empty, init_state immutable_call) = Some (w, l)"
    and n: "length (wire w) = 2"
    by blast
  from put_content_headers [OF r]
  have "list_all (\<lambda>r.
        put_ContentType (req_input r) = Some ''application/octet-stream'' \<and>
        put_ContentEncoding (req_input r) = None) (wire w)"
    by (simp add: immutable_call_def immutable_opts_def sample_call_def new_world_def)
  with r n show ?thesis by blast
qed

subsection \<open>Nil options\<close>

lemma nil_opts_step:
  assumes "step c ev (w, l) = Some (w', l')" and "u_opts c = None"
    and "wire w = wire w0 \<and> uploadSize w = uploadSize w0 \<and>
      (mpc l = MStart \<or> mpc l = MCall \<or> mpc l = MPanic NilPointerDereference) \<and>
      \<not> hedge_issued l"
  shows "wire w' = wire w0 \<and> uploadSize w' = uploadSize w0 \<and>
      (mpc l' = MStart \<or> mpc l' = MCall \<or> mpc l' = MPanic NilPointerDereference) \<and>
      \<not> hedge_issued l'"
  using assms
  by (cases rule: step_cases)
     (auto simp: putObject_None Upload_prepare_def hedge_issued_def)

text \<open>
  Claim C9. With nil options the put closure panics with a nil pointer dereference, for
  every backend, key and body. So in every run of \<open>Upload(ctx, key, data, nil)\<close> no PUT
  is ever sent, nothing is observed by \<open>uploadSize\<close>, and \<open>Upload\<close> never returns: the
  caller is before its call of \<open>putObject\<close> or has panicked there. The two steps of the
  caller lead to the panic.
\<close>

theorem Upload_nil_opts_panics:
  assumes "u_opts c = None"
  shows "putObject (u_backend c) (u_key c) v (u_opts c) = Inl NilPointerDereference \<and>
         (\<exists>w l. run c [MainStep, MainStep] (w0, init_state c) = Some (w, l) \<and>
                 mpc l = MPanic NilPointerDereference) \<and>
         (\<forall>evs w l. run c evs (w0, init_state c) = Some (w, l) \<longrightarrow>
            wire w = wire w0 \<and> uploadSize w = uploadSize w0 \<and>
            (mpc l = MStart \<or> mpc l = MCall \<or> mpc l = MPanic NilPointerDereference) \<and>
            (\<forall>res. mpc l \<noteq> MDone res))"
proof (intro conjI allI impI)
  show "putObject (u_backend c) (u_key c) v (u_opts c) = Inl NilPointerDereference"
    using assms by (simp add: putObject_None)
  show "\<exists>w l. run c [MainStep, MainStep] (w0, init_state c) = Some (w, l) \<and>
                 mpc l = MPanic NilPointerDereference"
    using assms
    by (simp add: step_def main_step_def init_state_def Upload_prepare_def putObject_None)
next
  fix evs w l
  assume r: "run c evs (w0, init_state c) = Some (w, l)"
  have "(\<lambda>(w, l). wire w = wire w0 \<and> uploadSize w = uploadSize w0 \<and>
      (mpc l = MStart \<or> mpc l = MCall \<or> mpc l = MPanic NilPointerDereference) \<and>
      \<not> hedge_issued l) (w, l)"
    using r
  proof (rule run_invariant)
    show "(\<lambda>(w, l). wire w = wire w0 \<and> uploadSize w = uploadSize w0 \<and>
      (mpc l = MStart \<or> mpc l = MCall \<or> mpc l = MPanic NilPointerDereference) \<and>
      \<not> hedge_issued l) (w0, init_state c)"
      by (simp add: init_state_def hedge_issued_def)
  next
    fix ev w l w' l'
    assume "(\<lambda>(w, l). wire w = wire w0 \<and> uploadSize w = uploadSize w0 \<and>
      (mpc l = MStart \<or> mpc l = MCall \<or> mpc l = MPanic NilPointerDereference) \<and>
      \<not> hedge_issued l) (w, l)" and "step c ev (w, l) = Some (w', l')"
    then show "(\<lambda>(w, l). wire w = wire w0 \<and> uploadSize w = uploadSize w0 \<and>
      (mpc l = MStart \<or> mpc l = MCall \<or> mpc l = MPanic NilPointerDereference) \<and>
      \<not> hedge_issued l) (w', l')"
      using nil_opts_step [OF _ assms, of ev w l w' l' w0] by simp
  qed
  then have i: "wire w = wire w0" "uploadSize w = uploadSize w0"
    "mpc l = MStart \<or> mpc l = MCall \<or> mpc l = MPanic NilPointerDereference"
    by simp_all
  show "wire w = wire w0" by (rule i(1))
  show "uploadSize w = uploadSize w0" by (rule i(2))
  show "mpc l = MStart \<or> mpc l = MCall \<or> mpc l = MPanic NilPointerDereference" by (rule i(3))
  show "mpc l \<noteq> MDone res" for res using i(3) by auto
qed

theorem Upload_nil_opts_panics_witness:
  "putObject sample_backend ''abc'' (vars (init_state (sample_call [1, 2, 3] None))) None
     = Inl NilPointerDereference \<and>
   (\<exists>w l. run (sample_call [1, 2, 3] None) [MainStep, MainStep]
             (new_world Map.empty, init_state (sample_call [1, 2, 3] None)) = Some (w, l) \<and>
           mpc l = MPanic NilPointerDereference)"
  using Upload_nil_opts_panics
    [of "sample_call [1, 2, 3] None" "vars (init_state (sample_call [1, 2, 3] None))"
        "new_world Map.empty"]
  by (simp add: sample_call_def)

subsection \<open>The observations of the two summaries\<close>

lemmas eval_compress_defs = compress_call_def compress_opts_def float64_div_def

text \<open>
  Claim C7. In every run of an upload whose sequential prefix did not fail: \<open>uploadSize\<close>
  (\<open>s3_upload_size_bytes\<close>) has observed nothing before \<open>Upload\<close> returns and exactly the
  length of the body on the wire when it has returned; every PUT sent has that body, and
  that length as its content length; the body is the gzip output when \<open>opts.Compress\<close> is
  set and the caller's data otherwise; and \<open>compressRatio\<close> (\<open>s3_compress_ratio\<close>) has
  observed exactly \<open>float64(compressed length) / float64(original length)\<close> when
  \<open>opts.Compress\<close> is set, and nothing otherwise.
\<close>

theorem upload_observations:
  assumes "run c evs (w0, init_state c) = Some (w, l)"
    and "Upload_prepare (u_gzip c) (u_key c) (u_data c) (u_opts c) = Inr (v, ratio)"
  shows "uploadSize w = uploadSize w0 @ (if \<exists>res. mpc l = MDone res then [length (v_data v)] else []) \<and>
         (\<exists>sent. wire w = wire w0 @ sent \<and>
            list_all (\<lambda>r. put_Body (req_input r) = v_data v \<and>
                          put_ContentLength (req_input r) = int (length (v_data v))) sent) \<and>
         (if u_opts c \<noteq> None \<and> Compress (the (u_opts c))
          then u_gzip c (u_data c) = Inr (v_data v) \<and>
               compressRatio w = compressRatio w0 @
                 (if mpc l = MStart then []
                  else [float64_div (length (v_data v)) (length (u_data c))])
          else v_data v = u_data c \<and> compressRatio w = compressRatio w0)"
proof -
  from all_inv_run [OF assms(1)] have u: "upload_inv c l" and vi: "vars_inv c l"
    and i: "world_inv c w0 (w, l)" by (simp_all add: all_inv_def)
  from vi assms(2) have vl: "mpc l = MStart \<or> vars l = v \<and> (\<forall>r. mpc l = MDone r \<longrightarrow> adopted l \<noteq> None)"
    by (simp add: vars_inv_def)
  from i have sz: "uploadSize w = uploadSize w0 @
        (if (\<exists>r. mpc l = MDone r) \<and> adopted l \<noteq> None then [length (v_data (vars l))] else [])"
    by (simp add: world_inv_def)
  have 1: "uploadSize w = uploadSize w0 @ (if \<exists>res. mpc l = MDone res then [length (v_data v)] else [])"
    using sz vl by auto
  have "put_Body (req_input r) = v_data v \<and>
        put_ContentLength (req_input r) = int (length (v_data v))"
    if "r \<in> set (sent_puts c l)" for r
  proof -
    from sent_requests(2) [OF assms(1) that] assms(2)
    have "putObject (u_backend c) (u_key c) v (u_opts c) = Inr r" by auto
    from putObject_Inr_input [OF this] show ?thesis by (simp add: putObject_input_def)
  qed
  with sent_requests(1) [OF assms(1)]
  have 2: "\<exists>sent. wire w = wire w0 @ sent \<and>
            list_all (\<lambda>r. put_Body (req_input r) = v_data v \<and>
                          put_ContentLength (req_input r) = int (length (v_data v))) sent"
    unfolding list_all_iff by blast
  from i have cr: "compressRatio w = compressRatio w0 @
        (if mpc l = MStart then []
         else (case ratio of Some x \<Rightarrow> [x] | None \<Rightarrow> []))"
    using assms(2) by (simp add: world_inv_def split: option.splits)
  have 3: "if u_opts c \<noteq> None \<and> Compress (the (u_opts c))
          then u_gzip c (u_data c) = Inr (v_data v) \<and>
               compressRatio w = compressRatio w0 @
                 (if mpc l = MStart then []
                  else [float64_div (length (v_data v)) (length (u_data c))])
          else v_data v = u_data c \<and> compressRatio w = compressRatio w0"
  proof (cases "u_opts c \<noteq> None \<and> Compress (the (u_opts c))")
    case True
    from Upload_prepare_Inr(4) [OF assms(2) True] cr True show ?thesis by simp
  next
    case False
    then have "u_opts c = None \<or> \<not> Compress (the (u_opts c))" by blast
    from Upload_prepare_Inr(3) [OF assms(2) this] cr show ?thesis
      by (subst if_not_P [OF False]) simp
  qed
  from 1 2 3 show ?thesis by blast
qed

theorem upload_observations_witness:
  "\<exists>w l. run (compress_call [1, 2, 3]) primary_first_trace
            (new_world Map.empty, init_state (compress_call [1, 2, 3])) = Some (w, l) \<and>
     uploadSize w = [5] \<and> compressRatio w = [Finite (5 / 3)]"
proof -
  have p: "Upload_prepare (u_gzip (compress_call [1, 2, 3])) (u_key (compress_call [1, 2, 3]))
      (u_data (compress_call [1, 2, 3])) (u_opts (compress_call [1, 2, 3])) =
    Inr (\<lparr>v_contentType = ''text/plain'', v_contentEncoding = Some ''gzip'',
          v_data = [0x1f, 0x8b, 1, 2, 3], v_cacheControl = None\<rparr>, Some (Finite (5 / 3)))"
    by (simp add: eval_defs eval_compress_defs)
  have "\<exists>w l. run (compress_call [1, 2, 3]) primary_first_trace
            (new_world Map.empty, init_state (compress_call [1, 2, 3])) = Some (w, l) \<and>
     mpc l = MDone None"
    by (simp add: eval_defs eval_compress_defs)
  then obtain w l where
    r: "run (compress_call [1, 2, 3]) primary_first_trace
            (new_world Map.empty, init_state (compress_call [1, 2, 3])) = Some (w, l)"
    and d: "mpc l = MDone None"
    by blast
  from upload_observations [OF r p] d
  have "uploadSize w = [5] \<and> compressRatio w = [Finite (5 / 3)]"
    by (simp add: new_world_def eval_compress_defs sample_call_def)
  with r show ?thesis by blast
qed

text \<open>
  Claim C10. For an upload with \<open>opts.Compress\<close> set and an empty body, where the gzip
  writer produces a nonempty stream \<open>z\<close>: the ratio that \<open>compressRatio\<close> observes is
  \<open>float64(len z) / float64(0)\<close>, which is +Inf and not a finite ratio. The upload goes
  on: the caller's next step sends a PUT whose body is \<open>z\<close>, with the content encoding
  \<open>gzip\<close>.
\<close>

theorem compress_empty_ratio_inf:
  assumes "u_opts c = Some opt" and "Compress opt" and "u_data c = []"
    and "u_gzip c [] = Inr z" and "z \<noteq> []"
  shows "float64_div (length z) (length (u_data c)) = PosInf \<and>
         (\<exists>w l r. run c [MainStep, MainStep] (w0, init_state c) = Some (w, l) \<and>
            compressRatio w = compressRatio w0 @ [PosInf] \<and>
            mpc l = MPut r \<and> wire w = wire w0 @ [r] \<and>
            put_Body (req_input r) = z \<and>
            put_ContentLength (req_input r) = int (length z) \<and>
            put_ContentEncoding (req_input r) = Some ''gzip'')"
  using assms
  by (simp add: float64_div_def step_def main_step_def init_state_def Upload_prepare_def
      putObject_Some putObject_input_def)

theorem compress_empty_ratio_inf_witness:
  "\<exists>w l r. run (compress_call []) [MainStep, MainStep]
              (new_world Map.empty, init_state (compress_call [])) = Some (w, l) \<and>
     compressRatio w = [PosInf] \<and> mpc l = MPut r \<and> wire w = [r] \<and>
     put_Body (req_input r) = [0x1f, 0x8b]"
proof -
  have a: "u_opts (compress_call []) = Some compress_opts" "Compress compress_opts"
    "u_data (compress_call []) = []" "u_gzip (compress_call []) [] = Inr [0x1f, 0x8b]"
    "[0x1f, 0x8b] \<noteq> ([] :: bytes)"
    by (simp_all add: compress_call_def sample_call_def compress_opts_def sample_gzip_def)
  from compress_empty_ratio_inf [OF a, of "new_world Map.empty"]
  obtain w l r where
    r: "run (compress_call []) [MainStep, MainStep]
              (new_world Map.empty, init_state (compress_call [])) = Some (w, l)"
    and c: "compressRatio w = compressRatio (new_world Map.empty) @ [PosInf]"
    and m: "mpc l = MPut r"
    and wi: "wire w = wire (new_world Map.empty) @ [r]"
    and b: "put_Body (req_input r) = [0x1f, 0x8b]"
    by blast
  from c wi have "compressRatio w = [PosInf]" "wire w = [r]" by (simp_all add: new_world_def)
  with r m b show ?thesis by blast
qed

subsection \<open>Keys on the wire\<close>

text \<open>
  Claim C6. Every operation sends \<open>keyPrefix + key\<close>. Each PUT of an upload has that key.
  The result of \<open>Fetch\<close>, \<open>Delete\<close>, \<open>Copy\<close> and \<open>List\<close> is determined by what the client
  answers at one input, and changes with that answer: for \<open>Fetch\<close> and \<open>Delete\<close> the
  input with the key \<open>keyPrefix + key\<close> in the backend's bucket, for \<open>Copy\<close> the input
  whose source is \<open>bucket/keyPrefix + from\<close> and whose key is \<open>keyPrefix + to\<close>, for \<open>List\<close>
  the input with the prefix \<open>keyPrefix + prefix\<close>. An error of the client at that input
  is returned wrapped, a success at that input is a success of the operation, and no
  other input is consulted. Each key that \<open>List\<close> returns is the key of the response
  with \<open>keyPrefix\<close> removed.
\<close>

theorem keys_are_prefixed:
  "(\<forall>evs w0 w l. run c evs (w0, init_state c) = Some (w, l) \<longrightarrow>
      (\<exists>sent. wire w = wire w0 @ sent \<and>
         list_all (\<lambda>r. put_Key (req_input r) = keyPrefix (u_backend c) @ u_key c \<and>
                       put_Bucket (req_input r) = bucket (u_backend c)) sent)) \<and>
   Fetch gunzip s getc key =
     Fetch gunzip s (\<lambda>i. getc \<lparr>get_Bucket = bucket s, get_Key = keyPrefix s @ key\<rparr>) key \<and>
   (\<forall>err. getc \<lparr>get_Bucket = bucket s, get_Key = keyPrefix s @ key\<rparr> = Inl err \<longrightarrow>
      Fetch gunzip s getc key = Inl (Errorf ''failed to fetch %q from S3: %w'' [key] (Some err))) \<and>
   (\<forall>b. getc \<lparr>get_Bucket = bucket s, get_Key = keyPrefix s @ key\<rparr> =
          Inr \<lparr>out_ContentEncoding = None, out_Body = \<lparr>avail = b, failure = None\<rparr>\<rparr> \<longrightarrow>
      Fetch gunzip s getc key = Inr b) \<and>
   Delete s delc key =
     (case delc \<lparr>del_Bucket = bucket s, del_Key = keyPrefix s @ key\<rparr> of
        Some err \<Rightarrow> Some (Errorf ''failed to delete %q from S3: %w'' [key] (Some err))
      | None \<Rightarrow> None) \<and>
   (Delete s delc key = None \<longleftrightarrow>
      delc \<lparr>del_Bucket = bucket s, del_Key = keyPrefix s @ key\<rparr> = None) \<and>
   Copy s copyc src dst =
     (case copyc \<lparr>copy_Bucket = bucket s,
                  CopySource = bucket s @ ''/'' @ keyPrefix s @ src,
                  copy_Key = keyPrefix s @ dst\<rparr> of
        Some err \<Rightarrow> Some (Errorf ''failed to copy %q to %q on S3: %w'' [src, dst] (Some err))
      | None \<Rightarrow> None) \<and>
   (Copy s copyc src dst = None \<longleftrightarrow>
      copyc \<lparr>copy_Bucket = bucket s,
             CopySource = bucket s @ ''/'' @ keyPrefix s @ src,
             copy_Key = keyPrefix s @ dst\<rparr> = None) \<and>
   List s listc p =
     List s (\<lambda>i. listc \<lparr>list_Bucket = bucket s, list_Prefix = keyPrefix s @ p\<rparr>) p \<and>
   (\<forall>err. listc \<lparr>list_Bucket = bucket s, list_Prefix = keyPrefix s @ p\<rparr> = Inl err \<longrightarrow>
      List s listc p = Inl (Errorf ''failed to list %q from S3: %w'' [p] (Some err))) \<and>
   (\<forall>keys. List s listc p = Inr keys \<longrightarrow>
      (\<exists>out. listc \<lparr>list_Bucket = bucket s, list_Prefix = keyPrefix s @ p\<rparr> = Inr out \<and>
         Contents out = map (\<lambda>k. Some (keyPrefix s @ k)) keys))"
proof (intro conjI allI impI)
  fix evs w0 w l
  assume r: "run c evs (w0, init_state c) = Some (w, l)"
  have "put_Key (req_input r) = keyPrefix (u_backend c) @ u_key c \<and>
        put_Bucket (req_input r) = bucket (u_backend c)"
    if "r \<in> set (sent_puts c l)" for r
  proof -
    from sent_requests(2) [OF r that] obtain v where
      "putObject (u_backend c) (u_key c) v (u_opts c) = Inr r" by blast
    from putObject_Inr_input [OF this] show ?thesis by (simp add: putObject_input_def)
  qed
  with sent_requests(1) [OF r]
  show "\<exists>sent. wire w = wire w0 @ sent \<and>
         list_all (\<lambda>r. put_Key (req_input r) = keyPrefix (u_backend c) @ u_key c \<and>
                       put_Bucket (req_input r) = bucket (u_backend c)) sent"
    unfolding list_all_iff by blast
next
  show "Fetch gunzip s getc key =
     Fetch gunzip s (\<lambda>i. getc \<lparr>get_Bucket = bucket s, get_Key = keyPrefix s @ key\<rparr>) key"
    by (simp add: Fetch_def Fetch_input_def)
next
  fix err
  assume "getc \<lparr>get_Bucket = bucket s, get_Key = keyPrefix s @ key\<rparr> = Inl err"
  then show "Fetch gunzip s getc key =
      Inl (Errorf ''failed to fetch %q from S3: %w'' [key] (Some err))"
    by (simp add: Fetch_def Fetch_input_def)
next
  fix b
  assume "getc \<lparr>get_Bucket = bucket s, get_Key = keyPrefix s @ key\<rparr> =
          Inr \<lparr>out_ContentEncoding = None, out_Body = \<lparr>avail = b, failure = None\<rparr>\<rparr>"
  then show "Fetch gunzip s getc key = Inr b"
    by (simp add: Fetch_def Fetch_input_def ReadAll_def)
next
  show d: "Delete s delc key =
     (case delc \<lparr>del_Bucket = bucket s, del_Key = keyPrefix s @ key\<rparr> of
        Some err \<Rightarrow> Some (Errorf ''failed to delete %q from S3: %w'' [key] (Some err))
      | None \<Rightarrow> None)"
    by (simp add: Delete_def Delete_input_def)
  show "Delete s delc key = None \<longleftrightarrow>
      delc \<lparr>del_Bucket = bucket s, del_Key = keyPrefix s @ key\<rparr> = None"
    unfolding d by (simp split: option.splits)
  show cp: "Copy s copyc src dst =
     (case copyc \<lparr>copy_Bucket = bucket s,
                  CopySource = bucket s @ ''/'' @ keyPrefix s @ src,
                  copy_Key = keyPrefix s @ dst\<rparr> of
        Some err \<Rightarrow> Some (Errorf ''failed to copy %q to %q on S3: %w'' [src, dst] (Some err))
      | None \<Rightarrow> None)"
    by (simp add: Copy_def Copy_input_def)
  show "Copy s copyc src dst = None \<longleftrightarrow>
      copyc \<lparr>copy_Bucket = bucket s,
             CopySource = bucket s @ ''/'' @ keyPrefix s @ src,
             copy_Key = keyPrefix s @ dst\<rparr> = None"
    unfolding cp by (simp split: option.splits)
  show "List s listc p =
     List s (\<lambda>i. listc \<lparr>list_Bucket = bucket s, list_Prefix = keyPrefix s @ p\<rparr>) p"
    by (simp add: List_def List_input_def)
next
  fix err
  assume "listc \<lparr>list_Bucket = bucket s, list_Prefix = keyPrefix s @ p\<rparr> = Inl err"
  then show "List s listc p = Inl (Errorf ''failed to list %q from S3: %w'' [p] (Some err))"
    by (simp add: List_def List_input_def)
next
  fix keys
  assume k: "List s listc p = Inr keys"
  then obtain out where out: "listc (List_input s p) = Inr out"
    and ok: "\<forall>ob\<in>set (Contents out). \<exists>k. ob = Some k \<and> HasPrefix k (keyPrefix s @ p)"
    and keys: "keys = map (\<lambda>ob. TrimPrefix (the ob) (keyPrefix s)) (Contents out)"
    by (auto simp: List_Inr)
  have "Some (keyPrefix s @ TrimPrefix (the ob) (keyPrefix s)) = ob"
    if "ob \<in> set (Contents out)" for ob
  proof -
    from ok that obtain k where "ob = Some k" "HasPrefix k (keyPrefix s @ p)" by blast
    then show ?thesis by (simp add: append_TrimPrefix)
  qed
  then have "map (\<lambda>k. Some (keyPrefix s @ k)) keys = map (\<lambda>ob. ob) (Contents out)"
    unfolding keys map_map by (intro map_cong) simp_all
  with out show "\<exists>out. listc \<lparr>list_Bucket = bucket s, list_Prefix = keyPrefix s @ p\<rparr> = Inr out \<and>
         Contents out = map (\<lambda>k. Some (keyPrefix s @ k)) keys"
    by (simp add: List_input_def)
qed

text \<open>
  At concrete inputs, with clients that answer only at the prefixed input and fail at
  every other one: the upload sends two PUTs with the key \<open>log/abc\<close>, and \<open>Fetch\<close>,
  \<open>Delete\<close>, \<open>Copy\<close> and \<open>List\<close> succeed, so each has asked at the prefixed input.
\<close>

theorem keys_are_prefixed_witness:
  "(\<exists>w l. run immutable_call hedge_first_trace
            (new_world Map.empty, init_state immutable_call) = Some (w, l) \<and>
      length (wire w) = 2 \<and>
      list_all (\<lambda>r. put_Key (req_input r) = ''log/abc'' \<and> put_Bucket (req_input r) = ''ct'')
        (wire w)) \<and>
   Fetch sample_gunzip sample_backend only_prefixed_get ''abc'' = Inr [7, 8] \<and>
   Delete sample_backend only_prefixed_delete ''abc'' = None \<and>
   Copy sample_backend only_prefixed_copy ''abc'' ''xyz'' = None \<and>
   List sample_backend only_prefixed_list ''a'' = Inr [''ab'']"
proof -
  have "\<exists>w l. run immutable_call hedge_first_trace
            (new_world Map.empty, init_state immutable_call) = Some (w, l) \<and>
     length (wire w) = 2"
    by (simp add: eval_defs)
  then obtain w l where
    r: "run immutable_call hedge_first_trace
            (new_world Map.empty, init_state immutable_call) = Some (w, l)"
    and n: "length (wire w) = 2"
    by blast
  note k = keys_are_prefixed
    [where c = immutable_call and s = sample_backend and key = "''abc''"
       and gunzip = sample_gunzip and getc = only_prefixed_get
       and delc = only_prefixed_delete and copyc = only_prefixed_copy
       and src = "''abc''" and dst = "''xyz''"
       and listc = only_prefixed_list and p = "''a''"]
  from k r
  have "\<exists>sent. wire w = wire (new_world Map.empty) @ sent \<and>
         list_all (\<lambda>r. put_Key (req_input r) = keyPrefix (u_backend immutable_call) @ u_key immutable_call \<and>
                       put_Bucket (req_input r) = bucket (u_backend immutable_call)) sent"
    by blast
  then have 1: "list_all (\<lambda>r. put_Key (req_input r) = ''log/abc'' \<and> put_Bucket (req_input r) = ''ct'')
        (wire w)"
    by (simp add: immutable_call_def sample_call_def sample_backend_def new_world_def)
  have g: "only_prefixed_get \<lparr>get_Bucket = bucket sample_backend,
        get_Key = keyPrefix sample_backend @ ''abc''\<rparr> =
      Inr \<lparr>out_ContentEncoding = None, out_Body = \<lparr>avail = [7, 8], failure = None\<rparr>\<rparr>"
    by (simp add: only_prefixed_get_def sample_backend_def)
  from k g have 2: "Fetch sample_gunzip sample_backend only_prefixed_get ''abc'' = Inr [7, 8]"
    by blast
  have d: "only_prefixed_delete \<lparr>del_Bucket = bucket sample_backend,
        del_Key = keyPrefix sample_backend @ ''abc''\<rparr> = None"
    by (simp add: only_prefixed_delete_def sample_backend_def)
  from k d have 3: "Delete sample_backend only_prefixed_delete ''abc'' = None"
    by blast
  have cp: "only_prefixed_copy \<lparr>copy_Bucket = bucket sample_backend,
        CopySource = bucket sample_backend @ ''/'' @ keyPrefix sample_backend @ ''abc'',
        copy_Key = keyPrefix sample_backend @ ''xyz''\<rparr> = None"
    by (simp add: only_prefixed_copy_def sample_backend_def)
  from k cp have 4: "Copy sample_backend only_prefixed_copy ''abc'' ''xyz'' = None"
    by blast
  have 5: "List sample_backend only_prefixed_list ''a'' = Inr [''ab'']"
    by (simp add: List_def List_input_def only_prefixed_list_def sample_backend_def
        HasPrefix_def TrimPrefix_def)
  from r n 1 2 3 4 5 show ?thesis by blast
qed

subsection \<open>The compression round trip\<close>

lemma Upload_returns_success_adopted:
  assumes "upload_inv c l" and "mpc l = MDone None"
  shows "primaryRes l = Some None \<or> hedgeRes l = Some None"
proof -
  have u: "Upload_result c e = None \<longleftrightarrow> e = None" for e
    by (cases e) (simp_all add: Upload_result_def)
  from assms have
    "adopted l = Some Primary \<and> (\<exists>e. primaryRes l = Some e \<and> None = Upload_result c e) \<or>
     adopted l = Some Hedge \<and> (\<exists>e. hedgeRes l = Some e \<and> None = Upload_result c e)"
    by (auto simp: upload_inv_def main_inv_def)
  then show ?thesis using u by metis
qed

text \<open>
  Claim C4. Take an upload with \<open>opts.Compress\<close> set that has returned success, in a
  store that applies the PUTs of this call only, and a gzip reader that decodes what the
  gzip writer produced for this body. The store then holds the gzip output under
  \<open>keyPrefix + key\<close> with the content encoding \<open>gzip\<close>, and \<open>Fetch\<close> of the same key
  from that store returns exactly the body that was uploaded.
\<close>

theorem fetch_after_compressed_upload:
  assumes "run c evs (w0, init_state c) = Some (w, l)" and "mpc l = MDone None"
    and "u_opts c = Some opt" and "Compress opt"
    and "\<forall>z. u_gzip c (u_data c) = Inr z \<longrightarrow>
           gunzip \<lparr>avail = z, failure = None\<rparr> = Gunzipped (u_data c)"
  shows "(\<exists>z ob. u_gzip c (u_data c) = Inr z \<and>
            store w (bucket (u_backend c), keyPrefix (u_backend c) @ u_key c) = Some ob \<and>
            obj_Body ob = z \<and> obj_ContentEncoding ob = Some ''gzip'') \<and>
         Fetch gunzip (u_backend c) (store_GetObject (store w)) (u_key c) = Inr (u_data c)"
proof -
  from all_inv_run [OF assms(1)] have u: "upload_inv c l" and vi: "vars_inv c l"
    and i: "world_inv c w0 (w, l)" by (simp_all add: all_inv_def)
  from Upload_returns_success_adopted [OF u assms(2)]
  have ok: "primaryRes l = Some None \<or> hedgeRes l = Some None" .
  with i have st: "store w =
      store_PutObject (putObject_input (u_backend c) (u_key c) (vars l)) (store w0)"
    by (auto simp: world_inv_def)
  from vi assms(2) obtain v ratio where
    p: "Upload_prepare (u_gzip c) (u_key c) (u_data c) (u_opts c) = Inr (v, ratio)"
    and v: "vars l = v"
    by (cases "Upload_prepare (u_gzip c) (u_key c) (u_data c) (u_opts c)")
       (auto simp: vars_inv_def)
  from assms(3,4) have "u_opts c \<noteq> None \<and> Compress (the (u_opts c))" by simp
  from Upload_prepare_Inr(4) [OF p this]
  have enc: "v_contentEncoding v = Some ''gzip''" and gz: "u_gzip c (u_data c) = Inr (v_data v)"
    by simp_all
  from assms(5) gz have gu: "gunzip \<lparr>avail = v_data v, failure = None\<rparr> = Gunzipped (u_data c)"
    by blast
  let ?ob = "\<lparr>obj_Body = v_data v, obj_ContentEncoding = Some ''gzip'',
              obj_ContentType = Some (v_contentType v), obj_CacheControl = v_cacheControl v\<rparr>"
  have s: "store w (bucket (u_backend c), keyPrefix (u_backend c) @ u_key c) = Some ?ob"
    using st v enc by (simp add: store_PutObject_def putObject_input_def)
  have f: "Fetch gunzip (u_backend c) (store_GetObject (store w)) (u_key c) = Inr (u_data c)"
    using s gu by (simp add: Fetch_def Fetch_input_def store_GetObject_def)
  from gz s f show ?thesis by auto
qed

theorem fetch_after_compressed_upload_witness:
  "\<exists>w l. run (compress_call [1, 2, 3]) hedge_ok_trace
            (new_world Map.empty, init_state (compress_call [1, 2, 3])) = Some (w, l) \<and>
     mpc l = MDone None \<and>
     Fetch sample_gunzip sample_backend (store_GetObject (store w)) ''abc'' = Inr [1, 2, 3]"
proof -
  have "\<exists>w l. run (compress_call [1, 2, 3]) hedge_ok_trace
            (new_world Map.empty, init_state (compress_call [1, 2, 3])) = Some (w, l) \<and>
     mpc l = MDone None"
    by (simp add: eval_defs eval_compress_defs hedge_ok_trace_def)
  then obtain w l where
    r: "run (compress_call [1, 2, 3]) hedge_ok_trace
            (new_world Map.empty, init_state (compress_call [1, 2, 3])) = Some (w, l)"
    and d: "mpc l = MDone None"
    by blast
  have a: "u_opts (compress_call [1, 2, 3]) = Some compress_opts" "Compress compress_opts"
    by (simp_all add: compress_call_def sample_call_def compress_opts_def)
  have g: "\<forall>z. u_gzip (compress_call [1, 2, 3]) (u_data (compress_call [1, 2, 3])) = Inr z \<longrightarrow>
           sample_gunzip \<lparr>avail = z, failure = None\<rparr> = Gunzipped (u_data (compress_call [1, 2, 3]))"
    by (auto simp: compress_call_def sample_call_def sample_gzip_def sample_gunzip_def)
  from fetch_after_compressed_upload [OF r d a g]
  have "Fetch sample_gunzip sample_backend (store_GetObject (store w)) ''abc'' = Inr [1, 2, 3]"
    by (simp add: compress_call_def sample_call_def)
  with r d show ?thesis by blast
qed

end
